theory Spec2Isabelle
  imports Main "HOL-Library.AList"
begin

section \<open>Strings\<close>

text \<open>
  A Python \<open>str\<close> is a \<^typ>\<open>string\<close>; a character is read as the code point of the
  same number, so the texts covered are those over U+0000..U+00FF.  The Unicode-aware
  library predicates (\<open>str.strip\<close>, \<open>str.lower\<close>, the classes \<open>\s\<close> and \<open>\d\<close> of
  \<open>re\<close>) are written out for exactly this range.
\<close>

definition nl :: char where
  "nl = CHR 0x0A"

definition whitespace :: "char list" where
  "whitespace = [CHR 0x09, CHR 0x0A, CHR 0x0B, CHR 0x0C, CHR 0x0D, CHR 0x1C, CHR 0x1D,
                 CHR 0x1E, CHR 0x1F, CHR 0x20, CHR 0x85, CHR 0xA0]"

definition is_space :: "char \<Rightarrow> bool" where
  "is_space c = (c \<in> set whitespace)"

definition is_digit :: "char \<Rightarrow> bool" where
  "is_digit c = (c \<in> set ''0123456789'')"

definition lstrip :: "string \<Rightarrow> string" where
  "lstrip s = dropWhile is_space s"

definition rstrip :: "string \<Rightarrow> string" where
  "rstrip s = rev (dropWhile is_space (rev s))"

definition strip :: "string \<Rightarrow> string" where
  "strip s = rstrip (lstrip s)"

text \<open>\<open>s.lstrip(chars)\<close> and \<open>s.rstrip(chars)\<close>: every leading (trailing) character that
  occurs in \<open>chars\<close> is removed.\<close>

definition lstrip_chars :: "string \<Rightarrow> string \<Rightarrow> string" where
  "lstrip_chars cs s = dropWhile (\<lambda>c. c \<in> set cs) s"

definition rstrip_chars :: "string \<Rightarrow> string \<Rightarrow> string" where
  "rstrip_chars cs s = rev (dropWhile (\<lambda>c. c \<in> set cs) (rev s))"

text \<open>\<open>s.split(sep)\<close> for a one-character separator: always at least one piece.\<close>

fun split_on :: "char \<Rightarrow> string \<Rightarrow> string list" where
  "split_on c [] = [[]]"
| "split_on c (x # xs) =
     (if x = c then [] # split_on c xs
      else case split_on c xs of
             piece # pieces \<Rightarrow> (x # piece) # pieces
           | [] \<Rightarrow> [[x]])"

fun startswith :: "string \<Rightarrow> string \<Rightarrow> bool" where
  "startswith s [] = True"
| "startswith [] (p # ps) = False"
| "startswith (x # xs) (p # ps) = (x = p \<and> startswith xs ps)"

definition endswith :: "string \<Rightarrow> string \<Rightarrow> bool" where
  "endswith s p = startswith (rev s) (rev p)"

text \<open>\<open>sub in s\<close>\<close>

fun contains :: "string \<Rightarrow> string \<Rightarrow> bool" where
  "contains [] sub = (sub = [])"
| "contains (x # xs) sub = (startswith (x # xs) sub \<or> contains xs sub)"

definition upper_letters :: string where
  "upper_letters = ''ABCDEFGHIJKLMNOPQRSTUVWXYZ'' @
     [CHR 0xC0, CHR 0xC1, CHR 0xC2, CHR 0xC3, CHR 0xC4, CHR 0xC5, CHR 0xC6, CHR 0xC7,
      CHR 0xC8, CHR 0xC9, CHR 0xCA, CHR 0xCB, CHR 0xCC, CHR 0xCD, CHR 0xCE, CHR 0xCF,
      CHR 0xD0, CHR 0xD1, CHR 0xD2, CHR 0xD3, CHR 0xD4, CHR 0xD5, CHR 0xD6,
      CHR 0xD8, CHR 0xD9, CHR 0xDA, CHR 0xDB, CHR 0xDC, CHR 0xDD, CHR 0xDE]"

definition lower_letters :: string where
  "lower_letters = ''abcdefghijklmnopqrstuvwxyz'' @
     [CHR 0xE0, CHR 0xE1, CHR 0xE2, CHR 0xE3, CHR 0xE4, CHR 0xE5, CHR 0xE6, CHR 0xE7,
      CHR 0xE8, CHR 0xE9, CHR 0xEA, CHR 0xEB, CHR 0xEC, CHR 0xED, CHR 0xEE, CHR 0xEF,
      CHR 0xF0, CHR 0xF1, CHR 0xF2, CHR 0xF3, CHR 0xF4, CHR 0xF5, CHR 0xF6,
      CHR 0xF8, CHR 0xF9, CHR 0xFA, CHR 0xFB, CHR 0xFC, CHR 0xFD, CHR 0xFE]"

definition lower_char :: "char \<Rightarrow> char" where
  "lower_char c = (case map_of (zip upper_letters lower_letters) c of Some l \<Rightarrow> l | None \<Rightarrow> c)"

definition lower :: "string \<Rightarrow> string" where
  "lower s = map lower_char s"

text \<open>\<open>str.upper\<close>: U+00DF becomes \<open>SS\<close>.  The upper-case forms of U+00B5 and U+00FF
  lie beyond U+00FF; the two characters are left as they are (the only caller hands
  the result to \<open>strptime\<close>, which rejects either form).\<close>

definition upper_char :: "char \<Rightarrow> string" where
  "upper_char c = (if c = CHR 0xDF then ''SS''
     else case map_of (zip lower_letters upper_letters) c of Some u \<Rightarrow> [u] | None \<Rightarrow> [c])"

definition upper :: "string \<Rightarrow> string" where
  "upper s = concat (map upper_char s)"

section \<open>Regular expressions\<close>

text \<open>
  The fragment of \<open>re\<close> that the three patterns of \<open>parse_chat\<close> use, with the
  backtracking order of the library: a quantified character class tries its
  repetition counts from the largest down (greedy) or from the smallest up (lazy), and
  for each count everything that follows; the first complete match wins.  \<open>Mark\<close> is
  an opening or closing parenthesis of a capturing group; \<open>AltI\<close> is an alternation of
  literal words matched without regard to case.
\<close>

datatype re_item =
    Bol
  | Eol
  | Lit char
  | Cls "char \<Rightarrow> bool"
  | Rep "char \<Rightarrow> bool" nat "nat option" bool
  | Mark
  | AltI "string list"

definition rep_counts :: "(char \<Rightarrow> bool) \<Rightarrow> nat \<Rightarrow> nat option \<Rightarrow> bool \<Rightarrow> string \<Rightarrow> nat list" where
  "rep_counts P lo hi greedy rest =
     (let n = length (takeWhile P rest);
          m = (case hi of None \<Rightarrow> n | Some h \<Rightarrow> min h n);
          ks = [lo ..< Suc m]
      in if greedy then rev ks else ks)"

definition startswith_ci :: "string \<Rightarrow> string \<Rightarrow> bool" where
  "startswith_ci s p = startswith (lower s) (lower p)"

text \<open>\<open>rmatch s items rest marks\<close>: every way of matching \<open>items\<close> at the suffix \<open>rest\<close>
  of the subject \<open>s\<close>, in the order the library tries them, each with the suffix left
  over and the suffixes recorded at the group boundaries.\<close>

fun rmatch :: "string \<Rightarrow> re_item list \<Rightarrow> string \<Rightarrow> string list \<Rightarrow> (string \<times> string list) list" where
  "rmatch s [] rest ms = [(rest, ms)]"
| "rmatch s (Bol # r) rest ms = (if length rest = length s then rmatch s r rest ms else [])"
| "rmatch s (Eol # r) rest ms = (if rest = [] \<or> rest = [nl] then rmatch s r rest ms else [])"
| "rmatch s (Lit c # r) rest ms =
     (case rest of [] \<Rightarrow> [] | x # xs \<Rightarrow> if x = c then rmatch s r xs ms else [])"
| "rmatch s (Cls P # r) rest ms =
     (case rest of [] \<Rightarrow> [] | x # xs \<Rightarrow> if P x then rmatch s r xs ms else [])"
| "rmatch s (Rep P lo hi greedy # r) rest ms =
     concat (map (\<lambda>k. rmatch s r (drop k rest) ms) (rep_counts P lo hi greedy rest))"
| "rmatch s (Mark # r) rest ms = rmatch s r rest (ms @ [rest])"
| "rmatch s (AltI alts # r) rest ms =
     concat (map (\<lambda>a. if startswith_ci rest a then rmatch s r (drop (length a) rest) ms else [])
                 alts)"

text \<open>The text of each group, from the suffixes at its two parentheses.\<close>

fun groups :: "string list \<Rightarrow> string list" where
  "groups (a # b # r) = take (length a - length b) a # groups r"
| "groups _ = []"

text \<open>\<open>pattern.match(s)\<close>: the groups of the first match at the start of \<open>s\<close>.\<close>

definition re_match :: "re_item list \<Rightarrow> string \<Rightarrow> string list option" where
  "re_match items s = (case rmatch s items s [] of [] \<Rightarrow> None | (rest, ms) # _ \<Rightarrow> Some (groups ms))"

text \<open>\<open>pattern.finditer(s)\<close>: the leftmost match from the current position, then on
  from its end (one character further when the match is empty or there is none).\<close>

function finditer :: "re_item list \<Rightarrow> string \<Rightarrow> string \<Rightarrow> string list list" where
  "finditer items s rest =
     (case rmatch s items rest [] of
        [] \<Rightarrow> (case rest of [] \<Rightarrow> [] | _ # xs \<Rightarrow> finditer items s xs)
      | (rest', ms) # _ \<Rightarrow>
          groups ms #
            (if length rest' < length rest then finditer items s rest'
             else case rest of [] \<Rightarrow> [] | _ # xs \<Rightarrow> finditer items s xs))"
  by pat_completeness auto
termination
  by (relation "measure (\<lambda>(items, s, rest). length rest)") auto

definition dot :: "char \<Rightarrow> bool" where
  "dot c = (c \<noteq> nl)"

definition date_re :: "re_item list" where
  "date_re = [Mark, Rep is_digit 1 (Some 2) True, Lit CHR ''/'', Rep is_digit 1 (Some 2) True,
              Lit CHR ''/'', Rep is_digit 2 (Some 2) True, Mark]"

definition time_re :: "re_item list" where
  "time_re = [Mark, Rep is_digit 1 (Some 2) True, Lit CHR '':'', Rep is_digit 2 (Some 2) True,
              Rep is_space 0 None True, Cls (\<lambda>c. c \<in> set ''APap''), Cls (\<lambda>c. c \<in> set ''Mm''), Mark]"

text \<open>What the two line patterns share:
  \<^verbatim>\<open>^(\d{1,2}/\d{1,2}/\d{2}),\s+(\d{1,2}:\d{2}\s*[APap][Mm])\s+-\s+\<close>\<close>

definition header_re :: "re_item list" where
  "header_re = [Bol] @ date_re @ [Lit CHR '','', Rep is_space 1 None True] @ time_re @
               [Rep is_space 1 None True, Lit CHR ''-'', Rep is_space 1 None True]"

text \<open>\<^verbatim>\<open>([^:]+?):\s*(.*)$\<close> and \<^verbatim>\<open>(.*)$\<close>\<close>

definition regular_tail :: "re_item list" where
  "regular_tail = [Mark, Rep (\<lambda>c. c \<noteq> CHR '':'') 1 None False, Mark, Lit CHR '':'',
                   Rep is_space 0 None True, Mark, Rep dot 0 None True, Mark, Eol]"

definition system_tail :: "re_item list" where
  "system_tail = [Mark, Rep dot 0 None True, Mark, Eol]"

definition regular_re :: "re_item list" where
  "regular_re = header_re @ regular_tail"

definition system_re :: "re_item list" where
  "system_re = header_re @ system_tail"

definition regular_match :: "string \<Rightarrow> (string \<times> string \<times> string \<times> string) option" where
  "regular_match line =
     (case re_match regular_re line of
        Some [date_str, time_str, sender_str, message_text] \<Rightarrow>
          Some (date_str, time_str, sender_str, message_text)
      | _ \<Rightarrow> None)"

definition system_match :: "string \<Rightarrow> (string \<times> string \<times> string) option" where
  "system_match line =
     (case re_match system_re line of
        Some [date_str, time_str, message_text] \<Rightarrow> Some (date_str, time_str, message_text)
      | _ \<Rightarrow> None)"

section \<open>Timestamps\<close>

text \<open>
  \<open>datetime.strptime\<close> raises \<open>ValueError\<close> when the text does not match the format,
  when text is left over, or when the day does not exist in the month.  Its directives
  are the library's: \<open>%m\<close> and \<open>%I\<close> read \<open>1[0-2]|0[1-9]|[1-9]\<close>, \<open>%d\<close> reads
  \<open>3[0-1]|[1-2]\d|0[1-9]|[1-9]| [1-9]\<close>, \<open>%y\<close> reads \<open>\d\d\<close> and takes 00..68 as
  2000..2068 and 69..99 as 1969..1999, \<open>%M\<close> reads \<open>[0-5]\d|\d\<close>, a blank in the
  format reads \<open>\s+\<close>, and \<open>%p\<close> reads \<open>am|pm\<close> in either case.
\<close>

datatype error = ValueError | RuntimeError

definition digit_val :: "char \<Rightarrow> nat" where
  "digit_val c = length (takeWhile (\<lambda>d. d \<noteq> c) ''0123456789'')"

text \<open>\<open>int(s)\<close> on the text of a directive (blanks around the digits are ignored).\<close>

definition py_int :: "string \<Rightarrow> nat" where
  "py_int s = foldl (\<lambda>n c. 10 * n + digit_val c) 0 (strip s)"

definition digit_char :: "nat \<Rightarrow> char" where
  "digit_char n = ''0123456789'' ! (n mod 10)"

definition pad2 :: "nat \<Rightarrow> string" where
  "pad2 n = [digit_char (n div 10), digit_char n]"

definition pad4 :: "nat \<Rightarrow> string" where
  "pad4 n = [digit_char (n div 1000), digit_char (n div 100), digit_char (n div 10), digit_char n]"

definition month_field :: "string \<Rightarrow> bool" where
  "month_field f =
     (case f of
        [a] \<Rightarrow> a \<in> set ''123456789''
      | [a, b] \<Rightarrow> (a = CHR ''1'' \<and> b \<in> set ''012'') \<or> (a = CHR ''0'' \<and> b \<in> set ''123456789'')
      | _ \<Rightarrow> False)"

definition day_field :: "string \<Rightarrow> bool" where
  "day_field f =
     (case f of
        [a] \<Rightarrow> a \<in> set ''123456789''
      | [a, b] \<Rightarrow> (a = CHR ''3'' \<and> b \<in> set ''01'') \<or> (a \<in> set ''12'' \<and> is_digit b) \<or>
                  (a = CHR ''0'' \<and> b \<in> set ''123456789'') \<or>
                  (a = CHR '' '' \<and> b \<in> set ''123456789'')
      | _ \<Rightarrow> False)"

definition year_field :: "string \<Rightarrow> bool" where
  "year_field f = (case f of [a, b] \<Rightarrow> is_digit a \<and> is_digit b | _ \<Rightarrow> False)"

definition minute_field :: "string \<Rightarrow> bool" where
  "minute_field f =
     (case f of [a] \<Rightarrow> is_digit a | [a, b] \<Rightarrow> a \<in> set ''012345'' \<and> is_digit b | _ \<Rightarrow> False)"

definition leap_year :: "nat \<Rightarrow> bool" where
  "leap_year y = (y mod 4 = 0 \<and> (y mod 100 \<noteq> 0 \<or> y mod 400 = 0))"

definition days_in_month :: "nat \<Rightarrow> nat \<Rightarrow> nat" where
  "days_in_month y m =
     (if m = 2 then (if leap_year y then 29 else 28)
      else if m \<in> set [4, 6, 9, 11] then 30 else 31)"

datatype date_format = MonthFirst | DayFirst

text \<open>\<open>datetime.strptime(s, "%m/%d/%y")\<close> and \<open>datetime.strptime(s, "%d/%m/%y")\<close>: year,
  month and day.\<close>

definition strptime_date :: "date_format \<Rightarrow> string \<Rightarrow> error + nat \<times> nat \<times> nat" where
  "strptime_date fmt s =
     (case split_on CHR ''/'' s of
        [f1, f2, f3] \<Rightarrow>
          (let mf = (case fmt of MonthFirst \<Rightarrow> f1 | DayFirst \<Rightarrow> f2);
               df = (case fmt of MonthFirst \<Rightarrow> f2 | DayFirst \<Rightarrow> f1)
           in if month_field mf \<and> day_field df \<and> year_field f3 then
                (let y = py_int f3;
                     year = (if y \<le> 68 then y + 2000 else y + 1900);
                     month = py_int mf;
                     day = py_int df
                 in if day \<le> days_in_month year month then Inr (year, month, day)
                    else Inl ValueError)
              else Inl ValueError)
      | _ \<Rightarrow> Inl ValueError)"

text \<open>\<open>dt.strftime("%Y-%m-%d")\<close>\<close>

definition strftime_date :: "nat \<times> nat \<times> nat \<Rightarrow> string" where
  "strftime_date dt = (case dt of (year, month, day) \<Rightarrow> pad4 year @ ''-'' @ pad2 month @ ''-'' @ pad2 day)"

definition convert_date :: "string \<Rightarrow> error + string" where
  "convert_date date_str =
     (case strptime_date MonthFirst date_str of
        Inr dt \<Rightarrow> Inr (strftime_date dt)
      | Inl ValueError \<Rightarrow>
          (case strptime_date DayFirst date_str of
             Inr dt \<Rightarrow> Inr (strftime_date dt)
           | Inl e \<Rightarrow> Inl e))"

text \<open>\<open>datetime.strptime(s, "%I:%M %p")\<close>: hour (0..23) and minute.\<close>

definition strptime_time :: "string \<Rightarrow> error + nat \<times> nat" where
  "strptime_time s =
     (let hf = takeWhile (\<lambda>c. c \<noteq> CHR '':'') s;
          after = drop 1 (dropWhile (\<lambda>c. c \<noteq> CHR '':'') s);
          minf = takeWhile is_digit after;
          blanks = takeWhile is_space (dropWhile is_digit after);
          ampm = lower (dropWhile is_space (dropWhile is_digit after))
      in if CHR '':'' \<in> set s \<and> month_field hf \<and> minute_field minf \<and> blanks \<noteq> [] \<and>
            (ampm = ''am'' \<or> ampm = ''pm'')
         then (let hour = py_int hf;
                   hour24 = (if ampm = ''am'' then (if hour = 12 then 0 else hour)
                             else (if hour \<noteq> 12 then hour + 12 else hour))
               in Inr (hour24, py_int minf))
         else Inl ValueError)"

text \<open>\<open>time_str.replace(narrow_nbsp, " ")\<close> for the narrow no-break space U+202F, which lies
  beyond U+00FF: no character of the text is replaced.\<close>

definition replace_nnbsp :: "string \<Rightarrow> string" where
  "replace_nnbsp s = s"

definition convert_time :: "string \<Rightarrow> error + string" where
  "convert_time time_str =
     (let cleaned = upper (strip (replace_nnbsp time_str))
      in case strptime_time cleaned of
           Inr (hour, minute) \<Rightarrow> Inr (pad2 hour @ '':'' @ pad2 minute)
         | Inl e \<Rightarrow> Inl e)"

section \<open>Messages and the segmenter\<close>

record attachment =
  filename :: string
  ocr_text :: string

record message =
  date :: string
  time :: string
  sender :: string
  msg_text :: string
  attachments :: "attachment list"

text \<open>
  The message dictionaries are objects: \<open>messages\<close> and \<open>current_msg\<close> hold references
  to them, and \<open>current_msg['text'] += ...\<close> updates the object in place.  The objects
  live in \<open>heap\<close>, in the order of their creation; a reference is an index into it.
\<close>

record seg_state =
  heap :: "message list"
  messages :: "nat list"
  current_msg :: "nat option"

definition init_state :: seg_state where
  "init_state = \<lparr>heap = [], messages = [], current_msg = None\<rparr>"

text \<open>\<open>if current_msg is not None: messages.append(current_msg)\<close>\<close>

definition append_current :: "seg_state \<Rightarrow> seg_state" where
  "append_current st =
     (case current_msg st of
        None \<Rightarrow> st
      | Some a \<Rightarrow> st\<lparr>messages := messages st @ [a]\<rparr>)"

text \<open>\<open>current_msg = {...}\<close>: a new object, and \<open>current_msg\<close> refers to it.\<close>

definition new_message :: "message \<Rightarrow> seg_state \<Rightarrow> seg_state" where
  "new_message m st = st\<lparr>heap := heap st @ [m], current_msg := Some (length (heap st))\<rparr>"

text \<open>\<open>current_msg['text'] += '\n' + line\<close>\<close>

definition append_text :: "nat \<Rightarrow> string \<Rightarrow> seg_state \<Rightarrow> seg_state" where
  "append_text a line st =
     st\<lparr>heap := (heap st)[a := (heap st ! a)\<lparr>msg_text := msg_text (heap st ! a) @ nl # line\<rparr>]\<rparr>"

text \<open>The body of the loop over the lines of the chat file.\<close>

definition feed_line :: "seg_state \<Rightarrow> string \<Rightarrow> error + seg_state" where
  "feed_line st raw_line =
     (let line = rstrip_chars [nl] raw_line
      in case regular_match line of
           Some (date_str, time_str, sender_str, message_text) \<Rightarrow>
             (let st1 = append_current st
              in case convert_date date_str of
                   Inl e \<Rightarrow> Inl e
                 | Inr date_iso \<Rightarrow>
                     (case convert_time time_str of
                        Inl e \<Rightarrow> Inl e
                      | Inr time_iso \<Rightarrow>
                          Inr (new_message
                                 \<lparr>date = date_iso, time = time_iso, sender = strip sender_str,
                                  msg_text = strip message_text, attachments = []\<rparr> st1)))
         | None \<Rightarrow>
             (case system_match line of
                Some (date_str, time_str, message_text) \<Rightarrow>
                  (let st1 = append_current st
                   in case convert_date date_str of
                        Inl e \<Rightarrow> Inl e
                      | Inr date_iso \<Rightarrow>
                          (case convert_time time_str of
                             Inl e \<Rightarrow> Inl e
                           | Inr time_iso \<Rightarrow>
                               Inr (new_message
                                      \<lparr>date = date_iso, time = time_iso, sender = ''System'',
                                       msg_text = strip message_text, attachments = []\<rparr> st1)))
              | None \<Rightarrow>
                  (case current_msg st of
                     Some a \<Rightarrow> Inr (append_text a line st)
                   | None \<Rightarrow> Inr st)))"

fun feed_lines :: "seg_state \<Rightarrow> string list \<Rightarrow> error + seg_state" where
  "feed_lines st [] = Inr st"
| "feed_lines st (raw_line # fh) =
     (case feed_line st raw_line of Inl e \<Rightarrow> Inl e | Inr st' \<Rightarrow> feed_lines st' fh)"

text \<open>The whole loop, and the append of the last message after it.\<close>

definition segment :: "string list \<Rightarrow> error + seg_state" where
  "segment fh = (case feed_lines init_state fh of Inl e \<Rightarrow> Inl e | Inr st \<Rightarrow> Inr (append_current st))"


section \<open>Text recovery from images\<close>

text \<open>
  Pillow, pytesseract and the Tesseract engine are outside the program.  What
  \<open>_perform_ocr\<close> sees of them: whether each module was imported, and for each call
  either a result or a raised exception of class \<open>Exception\<close> (the type \<open>'e\<close>).
\<close>

record ('e, 'img) ocr_env =
  have_pytesseract :: bool
  have_Image :: bool
  image_open :: "string \<Rightarrow> 'e + 'img"
  mode_is_rgb :: "'img \<Rightarrow> bool"
  convert_rgb :: "'img \<Rightarrow> 'e + 'img"
  image_to_string :: "'img \<Rightarrow> 'e + string"

text \<open>The body of the \<open>try\<close> block.\<close>

definition ocr_body :: "('e, 'img) ocr_env \<Rightarrow> string \<Rightarrow> 'e + string" where
  "ocr_body env image_path =
     (case image_open env image_path of
        Inl e \<Rightarrow> Inl e
      | Inr img \<Rightarrow>
          (case (if \<not> mode_is_rgb env img then convert_rgb env img else Inr img) of
             Inl e \<Rightarrow> Inl e
           | Inr img' \<Rightarrow>
               (case image_to_string env img' of
                  Inl e \<Rightarrow> Inl e
                | Inr recognised \<Rightarrow> Inr (strip recognised))))"

text \<open>The result is \<open>Inl e\<close> when the exception \<open>e\<close> leaves the function.\<close>

definition perform_ocr :: "('e, 'img) ocr_env \<Rightarrow> string \<Rightarrow> 'e + string" where
  "perform_ocr env image_path =
     (if \<not> have_pytesseract env \<or> \<not> have_Image env then Inr []
      else case ocr_body env image_path of
             Inr recognised \<Rightarrow> Inr recognised
           | Inl e \<Rightarrow> Inr [])"

section \<open>Attachments\<close>

definition name_char :: "char \<Rightarrow> bool" where
  "name_char c =
     (c \<in> set ''ABCDEFGHIJKLMNOPQRSTUVWXYZabcdefghijklmnopqrstuvwxyz0123456789_-'')"

text \<open>\<^verbatim>\<open>([A-Za-z0-9_\-]+\.(?:jpg|jpeg|png|gif|bmp|webp|heic|opus|mp4))\<close>, ignoring case\<close>

definition attach_re :: "re_item list" where
  "attach_re = [Mark, Rep name_char 1 None True, Lit CHR ''.'',
                AltI [''jpg'', ''jpeg'', ''png'', ''gif'', ''bmp'', ''webp'', ''heic'', ''opus'', ''mp4''],
                Mark]"

definition image_suffixes :: "string list" where
  "image_suffixes = [''.jpg'', ''.jpeg'', ''.png'', ''.gif'', ''.bmp'', ''.webp'', ''.heic'']"

definition is_image :: "string \<Rightarrow> bool" where
  "is_image fname = list_ex (endswith (lower fname)) image_suffixes"

text \<open>\<open>os.path.join(a, b)\<close> on a POSIX system.\<close>

definition path_join :: "string \<Rightarrow> string \<Rightarrow> string" where
  "path_join a b =
     (if startswith b ''/'' then b
      else if a = [] \<or> endswith a ''/'' then a @ b
      else a @ ''/'' @ b)"

text \<open>
  One match of \<open>attach_re\<close>: the attachment recorded for it, and the paths handed to
  \<open>_perform_ocr\<close> on the way (none or one).  \<open>isfile\<close> is \<open>os.path.isfile\<close> on the
  extracted archive.
\<close>

definition resolve_attachment ::
  "('e, 'img) ocr_env \<Rightarrow> (string \<Rightarrow> bool) \<Rightarrow> string \<Rightarrow> string \<Rightarrow> 'e + attachment \<times> string list" where
  "resolve_attachment env isfile attachments_dir fname =
     (let fpath = path_join attachments_dir fname
      in if isfile fpath \<and> is_image fname then
           (case perform_ocr env fpath of
              Inl e \<Rightarrow> Inl e
            | Inr recognised \<Rightarrow> Inr (\<lparr>filename = fname, ocr_text = recognised\<rparr>, [fpath]))
         else Inr (\<lparr>filename = fname, ocr_text = []\<rparr>, []))"

fun resolve_all ::
  "('e, 'img) ocr_env \<Rightarrow> (string \<Rightarrow> bool) \<Rightarrow> string \<Rightarrow> string list \<Rightarrow> 'e + attachment list \<times> string list" where
  "resolve_all env isfile attachments_dir [] = Inr ([], [])"
| "resolve_all env isfile attachments_dir (fname # fnames) =
     (case resolve_attachment env isfile attachments_dir fname of
        Inl e \<Rightarrow> Inl e
      | Inr (att, calls) \<Rightarrow>
          (case resolve_all env isfile attachments_dir fnames of
             Inl e \<Rightarrow> Inl e
           | Inr (atts, calls') \<Rightarrow> Inr (att # atts, calls @ calls')))"

text \<open>The file names that \<open>attach_re.finditer(text)\<close> yields (\<open>m.group(1)\<close> of each match).\<close>

definition attachment_names :: "string \<Rightarrow> string list" where
  "attachment_names txt = map hd (finditer attach_re txt txt)"

text \<open>The body of the loop over \<open>messages\<close>: the message object is updated in place when
  at least one attachment was found.\<close>

definition attach_message ::
  "('e, 'img) ocr_env \<Rightarrow> (string \<Rightarrow> bool) \<Rightarrow> string \<Rightarrow> nat \<Rightarrow> message list \<Rightarrow>
     'e + message list \<times> string list" where
  "attach_message env isfile attachments_dir a h =
     (case resolve_all env isfile attachments_dir (attachment_names (msg_text (h ! a))) of
        Inl e \<Rightarrow> Inl e
      | Inr (atts, calls) \<Rightarrow>
          Inr (if atts \<noteq> [] then h[a := (h ! a)\<lparr>attachments := atts\<rparr>] else h, calls))"

fun attach_all ::
  "('e, 'img) ocr_env \<Rightarrow> (string \<Rightarrow> bool) \<Rightarrow> string \<Rightarrow> nat list \<Rightarrow> message list \<Rightarrow>
     'e + message list \<times> string list" where
  "attach_all env isfile attachments_dir [] h = Inr (h, [])"
| "attach_all env isfile attachments_dir (a # as) h =
     (case attach_message env isfile attachments_dir a h of
        Inl e \<Rightarrow> Inl e
      | Inr (h', calls) \<Rightarrow>
          (case attach_all env isfile attachments_dir as h' of
             Inl e \<Rightarrow> Inl e
           | Inr (h'', calls') \<Rightarrow> Inr (h'', calls @ calls')))"

section \<open>Detail fields\<close>

definition canonical_key :: "string \<Rightarrow> string option" where
  "canonical_key key_norm =
     (if contains key_norm ''loan'' \<and> contains key_norm ''num'' then Some ''loan_num''
      else if contains key_norm ''loan'' \<and> contains key_norm ''no'' then Some ''loan_num''
      else if contains key_norm ''name'' then Some ''name''
      else if contains key_norm ''phone'' \<or> contains key_norm ''mobile'' then Some ''phone_number''
      else if contains key_norm ''loan'' \<and> contains key_norm ''amount'' then Some ''loan_amount''
      else if contains key_norm ''disbursal'' \<and> contains key_norm ''date'' then Some ''disbursal_date''
      else if contains key_norm ''repayment'' \<and> contains key_norm ''amt'' then Some ''repayment_amt''
      else if contains key_norm ''repayment'' \<and> contains key_norm ''amount'' then Some ''repayment_amt''
      else if contains key_norm ''repayment'' \<and> contains key_norm ''date'' then Some ''repayment_date''
      else if contains key_norm ''receive'' \<and> contains key_norm ''amt'' then Some ''receive_amt''
      else if contains key_norm ''receive'' \<and> contains key_norm ''amount'' then Some ''receive_amt''
      else if contains key_norm ''receive'' \<and> contains key_norm ''date'' then Some ''receive_date''
      else if contains key_norm ''status'' then Some ''status''
      else if contains key_norm ''reloan'' then Some ''reloan''
      else None)"

text \<open>\<open>re.sub(r'[^a-z]', '', key_raw.lower())\<close>\<close>

definition normalize_key :: "string \<Rightarrow> string" where
  "normalize_key key_raw = filter (\<lambda>c. c \<in> set ''abcdefghijklmnopqrstuvwxyz'') (lower key_raw)"

text \<open>\<open>value_part.strip().lstrip('-').strip()\<close>\<close>

definition clean_value :: "string \<Rightarrow> string" where
  "clean_value value_part = strip (lstrip_chars ''-'' (strip value_part))"

text \<open>The body of the loop over the lines of a message text: the entry it stores in
  \<open>details\<close>, if any.\<close>

definition detail_of_segment :: "string \<Rightarrow> (string \<times> string) option" where
  "detail_of_segment segm =
     (if CHR '':'' \<notin> set segm then None
      else let key_part = takeWhile (\<lambda>c. c \<noteq> CHR '':'') segm;
               value_part = drop 1 (dropWhile (\<lambda>c. c \<noteq> CHR '':'') segm);
               key_raw = strip key_part;
               value_raw = clean_value value_part
           in if key_raw = [] then None
              else case canonical_key (normalize_key key_raw) of
                     None \<Rightarrow> None
                   | Some canonical \<Rightarrow> Some (canonical, value_raw))"

text \<open>A dictionary keeps its keys in the order of their first insertion, as
  \<^const>\<open>AList.update\<close> does.\<close>

definition store_detail :: "(string \<times> string) list \<Rightarrow> string \<Rightarrow> (string \<times> string) list" where
  "store_detail details segm =
     (case detail_of_segment segm of
        None \<Rightarrow> details
      | Some (canonical, value_raw) \<Rightarrow> AList.update canonical value_raw details)"

definition extract_details :: "string \<Rightarrow> (string \<times> string) list" where
  "extract_details txt = foldl store_detail [] (split_on nl txt)"

section \<open>Rows and the two outputs\<close>

fun join :: "string \<Rightarrow> string list \<Rightarrow> string" where
  "join sep [] = []"
| "join sep [x] = x"
| "join sep (x # y # r) = x @ sep @ join sep (y # r)"

definition make_row :: "message \<Rightarrow> (string \<times> string) list" where
  "make_row msg =
     (let att_names = join '', '' (map filename (attachments msg));
          att_texts = join '' || '' (filter (\<lambda>t. t \<noteq> []) (map ocr_text (attachments msg)));
          row = [(''date'', date msg), (''time'', time msg), (''sender'', sender msg),
                 (''text'', msg_text msg), (''attachments'', att_names), (''ocr_text'', att_texts)]
      in foldl (\<lambda>r (key, val). AList.update (''collection_details_'' @ key) val r) row
           (extract_details (msg_text msg)))"

text \<open>A data frame built from a list of dictionaries has one row for each of them, and
  is empty when it has no row or no column.\<close>

definition df_empty :: "(string \<times> string) list list \<Rightarrow> bool" where
  "df_empty rows = (rows = [] \<or> list_all (\<lambda>r. r = []) rows)"

definition placeholder_row :: "(string \<times> string) list" where
  "placeholder_row = [(''date'', []), (''time'', []), (''sender'', []), (''text'', []),
                      (''attachments'', []), (''ocr_text'', [])]"

definition to_table :: "(string \<times> string) list list \<Rightarrow> (string \<times> string) list list" where
  "to_table rows = (if df_empty rows then [placeholder_row] else rows)"

record chat_output =
  json_messages :: "message list"
  excel_rows :: "(string \<times> string) list list"
  ocr_calls :: "string list"

text \<open>
  \<open>parse_chat\<close> from the extracted archive on: \<open>listing\<close> is \<open>os.listdir(tmpdir)\<close>,
  \<open>read_lines\<close> gives the lines of a file of that directory as iterating over the open
  file does.  The result holds what is written to the JSON file and to the Excel file,
  and the calls of \<open>_perform_ocr\<close> made.
\<close>

definition parse_chat ::
  "('e, 'img) ocr_env \<Rightarrow> (string \<Rightarrow> bool) \<Rightarrow> string \<Rightarrow> string list \<Rightarrow> (string \<Rightarrow> string list) \<Rightarrow>
     (error + 'e) + chat_output" where
  "parse_chat env isfile tmpdir listing read_lines =
     (case filter (\<lambda>f. endswith (lower f) ''.txt'') listing of
        [] \<Rightarrow> Inl (Inl RuntimeError)
      | chat_name # _ \<Rightarrow>
          (case segment (read_lines (path_join tmpdir chat_name)) of
             Inl e \<Rightarrow> Inl (Inl e)
           | Inr st \<Rightarrow>
               (case attach_all env isfile tmpdir (messages st) (heap st) of
                  Inl e \<Rightarrow> Inl (Inr e)
                | Inr (h, calls) \<Rightarrow>
                    (let msgs = map (\<lambda>a. h ! a) (messages st);
                         rows = map make_row msgs
                     in Inr \<lparr>json_messages = msgs, excel_rows = to_table rows,
                             ocr_calls = calls\<rparr>))))"

section \<open>Notions used in the statements\<close>

text \<open>A text without leading or trailing whitespace (\<open>s == s.strip()\<close>).\<close>

definition trimmed :: "string \<Rightarrow> bool" where
  "trimmed s = (s = [] \<or> (\<not> is_space (hd s) \<and> \<not> is_space (last s)))"


text \<open>The first line of a text: what precedes its first line break.\<close>

definition first_line :: "string \<Rightarrow> string" where
  "first_line txt = takeWhile (\<lambda>c. c \<noteq> nl) txt"

text \<open>The references of a segmenter state point into its heap, and the open message is
  not among the sealed ones.\<close>

definition valid_refs :: "seg_state \<Rightarrow> bool" where
  "valid_refs st =
     (list_all (\<lambda>a. a < length (heap st)) (messages st) \<and>
      (case current_msg st of
         None \<Rightarrow> True
       | Some c \<Rightarrow> c < length (heap st) \<and> c \<notin> set (messages st)))"

text \<open>What holds of every message object while the lines are read: the first line of
  its text is trimmed, and it has no attachment yet.\<close>

definition fresh_heap :: "message list \<Rightarrow> bool" where
  "fresh_heap h = list_all (\<lambda>m. trimmed (first_line (msg_text m)) \<and> attachments m = []) h"

text \<open>The attachments of a message are those that the resolver finds in its text.\<close>

definition resolved ::
  "('e, 'img) ocr_env \<Rightarrow> (string \<Rightarrow> bool) \<Rightarrow> string \<Rightarrow> message \<Rightarrow> bool" where
  "resolved env isfile attachments_dir m =
     (\<exists>calls. resolve_all env isfile attachments_dir (attachment_names (msg_text m)) =
                Inr (attachments m, calls))"

section \<open>Sample surroundings\<close>

text \<open>An OCR environment whose three calls always give the same outcome, and an archive
  that holds one image.\<close>

definition sample_env ::
  "bool \<Rightarrow> unit + string \<Rightarrow> unit + string \<Rightarrow> unit + string \<Rightarrow> (unit, string) ocr_env" where
  "sample_env available opened converted recognised =
     \<lparr>have_pytesseract = available, have_Image = available, image_open = (\<lambda>path. opened),
      mode_is_rgb = (\<lambda>img. False), convert_rgb = (\<lambda>img. converted),
      image_to_string = (\<lambda>img. recognised)\<rparr>"

definition sample_isfile :: "string \<Rightarrow> bool" where
  "sample_isfile path = (path = ''/tmp/x/IMG-001.jpg'')"

definition read_sample :: "string list \<Rightarrow> string \<Rightarrow> string list" where
  "read_sample fh path = fh"

section \<open>Evaluation on sample inputs\<close>

lemmas strip_defs = strip_def lstrip_def rstrip_def is_space_def whitespace_def

lemmas date_defs = convert_date_def strptime_date_def month_field_def day_field_def year_field_def
  py_int_def digit_val_def days_in_month_def leap_year_def strftime_date_def pad2_def pad4_def
  digit_char_def is_digit_def

lemmas time_defs = convert_time_def strptime_time_def replace_nnbsp_def upper_def upper_char_def
  lower_def lower_char_def upper_letters_def lower_letters_def minute_field_def month_field_def
  py_int_def digit_val_def pad2_def digit_char_def is_digit_def

lemmas state_defs = init_state_def new_message_def append_current_def append_text_def

lemma date_9_8_25: "convert_date ''9/8/25'' = Inr ''2025-09-08''"
  by (simp add: date_defs strip_defs)

lemma time_5_58: "convert_time ''5:58 PM'' = Inr ''17:58''"
  by (simp add: time_defs strip_defs)

lemma time_5_59: "convert_time ''5:59 PM'' = Inr ''17:59''"
  by (simp add: time_defs strip_defs)

lemma ex_rstrip:
  "rstrip_chars [nl] ''9/8/25, 5:58 PM - John Doe: Hello'' = ''9/8/25, 5:58 PM - John Doe: Hello''"
  "rstrip_chars [nl] ''world'' = ''world''"
  "rstrip_chars [nl] ''9/8/25, 5:59 PM - Jane: Bye'' = ''9/8/25, 5:59 PM - Jane: Bye''"
  by (simp_all add: rstrip_chars_def nl_def)

lemma ex_line1: "regular_match ''9/8/25, 5:58 PM - John Doe: Hello'' =
     Some (''9/8/25'', ''5:58 PM'', ''John Doe'', ''Hello'')"
  by code_simp

lemma ex_line2: "regular_match ''world'' = None" "system_match ''world'' = None"
  by code_simp+

lemma ex_line3: "regular_match ''9/8/25, 5:59 PM - Jane: Bye'' =
     Some (''9/8/25'', ''5:59 PM'', ''Jane'', ''Bye'')"
  by code_simp

lemma ex_strips: "strip ''John Doe'' = ''John Doe''" "strip ''Hello'' = ''Hello''"
  "strip ''Jane'' = ''Jane''" "strip ''Bye'' = ''Bye''"
  by (simp_all add: strip_defs)

lemma ex_segment:
  "segment [''9/8/25, 5:58 PM - John Doe: Hello'', ''world'', ''9/8/25, 5:59 PM - Jane: Bye''] =
     Inr \<lparr>heap = [\<lparr>date = ''2025-09-08'', time = ''17:58'', sender = ''John Doe'',
                     msg_text = ''Hello'' @ [nl] @ ''world'', attachments = []\<rparr>,
                   \<lparr>date = ''2025-09-08'', time = ''17:59'', sender = ''Jane'',
                     msg_text = ''Bye'', attachments = []\<rparr>],
            messages = [0, 1], current_msg = Some 1\<rparr>"
  by (simp add: segment_def feed_line_def Let_def ex_rstrip ex_line1 ex_line2 ex_line3 ex_strips
        date_9_8_25 time_5_58 time_5_59 state_defs)

lemma sample_paths:
  "path_join ''/tmp/x'' ''IMG-001.jpg'' = ''/tmp/x/IMG-001.jpg''"
  "path_join ''/tmp/x'' ''IMG-002.jpg'' = ''/tmp/x/IMG-002.jpg''"
  "path_join ''/tmp/x'' ''note.opus'' = ''/tmp/x/note.opus''"
  "path_join ''/tmp/x'' ''chat.txt'' = ''/tmp/x/chat.txt''"
  by (simp_all add: path_join_def endswith_def)

lemma sample_images:
  "is_image ''IMG-001.jpg''" "is_image ''IMG-002.jpg''" "\<not> is_image ''note.opus''"
  by code_simp+

lemma sample_txt: "endswith (lower ''chat.txt'') ''.txt''" "\<not> endswith (lower ''IMG-001.jpg'') ''.txt''"
  by code_simp+

lemma sample_listing:
  "filter (\<lambda>f. endswith (lower f) ''.txt'') [''IMG-001.jpg'', ''chat.txt''] = [''chat.txt'']"
  by (simp add: sample_txt)



lemma ex_names: "attachment_names (''Hello'' @ [nl] @ ''world'') = []" "attachment_names ''Bye'' = []"
  by code_simp+

lemma ex_parse_chat:
  "parse_chat env isfile ''/tmp/x'' [''IMG-001.jpg'', ''chat.txt'']
     (\<lambda>path. [''9/8/25, 5:58 PM - John Doe: Hello'', ''world'', ''9/8/25, 5:59 PM - Jane: Bye'']) =
   Inr \<lparr>json_messages =
          [\<lparr>date = ''2025-09-08'', time = ''17:58'', sender = ''John Doe'',
            msg_text = ''Hello'' @ [nl] @ ''world'', attachments = []\<rparr>,
           \<lparr>date = ''2025-09-08'', time = ''17:59'', sender = ''Jane'',
            msg_text = ''Bye'', attachments = []\<rparr>],
        excel_rows = to_table (map make_row
          [\<lparr>date = ''2025-09-08'', time = ''17:58'', sender = ''John Doe'',
            msg_text = ''Hello'' @ [nl] @ ''world'', attachments = []\<rparr>,
           \<lparr>date = ''2025-09-08'', time = ''17:59'', sender = ''Jane'',
            msg_text = ''Bye'', attachments = []\<rparr>]),
        ocr_calls = []\<rparr>"
  using ex_names
  by (simp add: parse_chat_def sample_txt sample_paths ex_segment attach_message_def)

section \<open>The claims\<close>

subsection \<open>C1: precedence of the two line grammars, continuation lines, sealing\<close>



subsection \<open>C3: date conversion\<close>

text \<open>
  Claim C3 (the code departs from it).  \<open>_convert_date\<close> tries the month-first format
  and then the day-first one, and pads month and day; but \<open>%y\<close> reads a two-digit year
  of 69 or more as 19YY, so the year is 2000+YY only up to 68: \<open>9/8/25\<close> gives
  2025-09-08, \<open>9/8/68\<close> gives 2068-09-08, and \<open>9/8/69\<close> and \<open>9/8/99\<close> give 1969-09-08
  and 1999-09-08.  \<open>13/1/25\<close> is read day-first, and \<open>13/13/25\<close> raises \<open>ValueError\<close>.
\<close>

theorem C3_year_pivot:
  "convert_date ''9/8/25'' = Inr ''2025-09-08'' \<and>
   convert_date ''9/8/68'' = Inr ''2068-09-08'' \<and>
   convert_date ''9/8/69'' = Inr ''1969-09-08'' \<and>
   convert_date ''9/8/99'' = Inr ''1999-09-08'' \<and>
   convert_date ''13/1/25'' = Inr ''2025-01-13'' \<and>
   convert_date ''13/13/25'' = Inl ValueError"
  by (simp add: date_defs strip_defs)

subsection \<open>C4: when text recovery is attempted for an attachment\<close>

lemma perform_ocr_total: "\<exists>recognised. perform_ocr env image_path = Inr recognised"
  by (simp add: perform_ocr_def split: sum.splits)

lemma resolve_attachment_cases:
  "resolve_attachment env isfile dir fname =
     (if isfile (path_join dir fname) \<and> is_image fname
      then Inr (\<lparr>filename = fname, ocr_text = projr (perform_ocr env (path_join dir fname))\<rparr>,
                [path_join dir fname])
      else Inr (\<lparr>filename = fname, ocr_text = []\<rparr>, []))"
  using perform_ocr_total [of env "path_join dir fname"]
  by (auto simp add: resolve_attachment_def Let_def)

lemma resolve_all_total:
  "\<exists>atts calls. resolve_all env isfile dir fnames = Inr (atts, calls) \<and>
     map filename atts = fnames \<and>
     calls = map (path_join dir) (filter (\<lambda>f. isfile (path_join dir f) \<and> is_image f) fnames) \<and>
     (\<forall>att \<in> set atts. \<not> (isfile (path_join dir (filename att)) \<and> is_image (filename att))
        \<longrightarrow> ocr_text att = [])"
proof (induction fnames)
  case Nil
  show ?case by simp
next
  case (Cons f fs)
  then obtain atts calls where r: "resolve_all env isfile dir fs = Inr (atts, calls)"
    and m: "map filename atts = fs"
    and c: "calls = map (path_join dir) (filter (\<lambda>f. isfile (path_join dir f) \<and> is_image f) fs)"
    and o: "\<forall>att \<in> set atts. \<not> (isfile (path_join dir (filename att)) \<and> is_image (filename att))
        \<longrightarrow> ocr_text att = []"
    by blast
  show ?case
    by (simp add: r m c o resolve_attachment_cases)
qed

text \<open>
  Claim C4.  For every file name matched in a message text, the attachment is recorded
  with that file name and no exception leaves the step; \<open>_perform_ocr\<close> is called at
  most once, and it is called exactly when the name ends in an image suffix and a file
  of that name exists in the attachment directory, in which case it is called on that
  path and its result is the recorded text.  Otherwise the recorded text is empty.
  Over all the matches of one message: one attachment for each match, in order, and
  one call for each match that names an existing image.
\<close>

theorem C4_attachment_ocr:
  "(\<exists>att calls.
     resolve_attachment env isfile attachments_dir fname = Inr (att, calls) \<and>
     filename att = fname \<and>
     length calls \<le> 1 \<and>
     (calls \<noteq> [] \<longleftrightarrow> is_image fname \<and> isfile (path_join attachments_dir fname)) \<and>
     (calls \<noteq> [] \<longrightarrow> calls = [path_join attachments_dir fname] \<and>
        perform_ocr env (path_join attachments_dir fname) = Inr (ocr_text att)) \<and>
     (\<not> is_image fname \<or> \<not> isfile (path_join attachments_dir fname) \<longrightarrow> ocr_text att = []))
   \<and> (\<exists>atts calls.
     resolve_all env isfile attachments_dir fnames = Inr (atts, calls) \<and>
     map filename atts = fnames \<and>
     calls = map (path_join attachments_dir)
               (filter (\<lambda>f. isfile (path_join attachments_dir f) \<and> is_image f) fnames))"
proof
  show "\<exists>att calls.
     resolve_attachment env isfile attachments_dir fname = Inr (att, calls) \<and>
     filename att = fname \<and>
     length calls \<le> 1 \<and>
     (calls \<noteq> [] \<longleftrightarrow> is_image fname \<and> isfile (path_join attachments_dir fname)) \<and>
     (calls \<noteq> [] \<longrightarrow> calls = [path_join attachments_dir fname] \<and>
        perform_ocr env (path_join attachments_dir fname) = Inr (ocr_text att)) \<and>
     (\<not> is_image fname \<or> \<not> isfile (path_join attachments_dir fname) \<longrightarrow> ocr_text att = [])"
    using perform_ocr_total [of env "path_join attachments_dir fname"]
    by (auto simp add: resolve_attachment_cases)
  show "\<exists>atts calls.
     resolve_all env isfile attachments_dir fnames = Inr (atts, calls) \<and>
     map filename atts = fnames \<and>
     calls = map (path_join attachments_dir)
               (filter (\<lambda>f. isfile (path_join attachments_dir f) \<and> is_image f) fnames)"
    using resolve_all_total [of env isfile attachments_dir fnames] by blast
qed

text \<open>C4 at an image that exists in the archive and at one that does not.\<close>

theorem C4_attachment_ocr_witness:
  "(\<exists>att. resolve_attachment (sample_env False (Inl ()) (Inl ()) (Inl ())) sample_isfile
            ''/tmp/x'' ''IMG-001.jpg'' = Inr (att, [''/tmp/x/IMG-001.jpg'']) \<and>
          filename att = ''IMG-001.jpg'')
   \<and> (\<exists>calls. resolve_attachment (sample_env False (Inl ()) (Inl ()) (Inl ())) sample_isfile
            ''/tmp/x'' ''IMG-002.jpg'' = Inr (\<lparr>filename = ''IMG-002.jpg'', ocr_text = []\<rparr>, calls)
          \<and> length calls \<le> 1)"
proof
  from C4_attachment_ocr [of "sample_env False (Inl ()) (Inl ()) (Inl ())" sample_isfile
      "''/tmp/x''" "''IMG-001.jpg''" "[]"]
  obtain att calls where
    r: "resolve_attachment (sample_env False (Inl ()) (Inl ()) (Inl ())) sample_isfile
            ''/tmp/x'' ''IMG-001.jpg'' = Inr (att, calls)"
    and f: "filename att = ''IMG-001.jpg''"
    and c: "calls \<noteq> [] \<longleftrightarrow>
              is_image ''IMG-001.jpg'' \<and> sample_isfile (path_join ''/tmp/x'' ''IMG-001.jpg'')"
    and d: "calls \<noteq> [] \<longrightarrow> calls = [path_join ''/tmp/x'' ''IMG-001.jpg'']"
    by blast
  from c have "calls \<noteq> []"
    by (simp add: sample_images sample_paths sample_isfile_def)
  with d have "calls = [''/tmp/x/IMG-001.jpg'']"
    by (simp add: sample_paths)
  with r f show "\<exists>att. resolve_attachment (sample_env False (Inl ()) (Inl ()) (Inl ())) sample_isfile
            ''/tmp/x'' ''IMG-001.jpg'' = Inr (att, [''/tmp/x/IMG-001.jpg'']) \<and>
          filename att = ''IMG-001.jpg''"
    by blast
next
  from C4_attachment_ocr [of "sample_env False (Inl ()) (Inl ()) (Inl ())" sample_isfile
      "''/tmp/x''" "''IMG-002.jpg''" "[]"]
  obtain att calls where
    r: "resolve_attachment (sample_env False (Inl ()) (Inl ()) (Inl ())) sample_isfile
            ''/tmp/x'' ''IMG-002.jpg'' = Inr (att, calls)"
    and f: "filename att = ''IMG-002.jpg''"
    and l: "length calls \<le> 1"
    and o: "\<not> is_image ''IMG-002.jpg'' \<or> \<not> sample_isfile (path_join ''/tmp/x'' ''IMG-002.jpg'')
              \<longrightarrow> ocr_text att = []"
    by blast
  from o have "ocr_text att = []"
    by (simp add: sample_paths sample_isfile_def)
  with f have "att = \<lparr>filename = ''IMG-002.jpg'', ocr_text = []\<rparr>"
    by (cases att) simp
  with r l show "\<exists>calls. resolve_attachment (sample_env False (Inl ()) (Inl ()) (Inl ())) sample_isfile
            ''/tmp/x'' ''IMG-002.jpg'' = Inr (\<lparr>filename = ''IMG-002.jpg'', ocr_text = []\<rparr>, calls)
          \<and> length calls \<le> 1"
    by blast
qed

subsection \<open>C5: text recovery never raises\<close>

text \<open>
  Claim C5.  \<open>_perform_ocr\<close> returns a string for every path and every behaviour of
  the libraries: the empty string when pytesseract or Pillow is missing, the empty
  string when opening the image, converting it or recognising it raises, and the
  recognised text with surrounding whitespace removed when all three succeed.
\<close>

theorem C5_perform_ocr:
  "(\<exists>recognised. perform_ocr env image_path = Inr recognised)
   \<and> (\<not> have_pytesseract env_u \<or> \<not> have_Image env_u \<longrightarrow> perform_ocr env_u image_path = Inr [])
   \<and> (image_open env_o image_path = Inl e \<longrightarrow> perform_ocr env_o image_path = Inr [])
   \<and> (image_open env_c image_path = Inr img \<and> \<not> mode_is_rgb env_c img \<and>
       convert_rgb env_c img = Inl e \<longrightarrow> perform_ocr env_c image_path = Inr [])
   \<and> (image_open env_t image_path = Inr img \<and>
       (if mode_is_rgb env_t img then Inr img else convert_rgb env_t img) = Inr img' \<and>
       image_to_string env_t img' = Inl e \<longrightarrow> perform_ocr env_t image_path = Inr [])
   \<and> (have_pytesseract env_s \<and> have_Image env_s \<and> image_open env_s image_path = Inr img \<and>
       (if mode_is_rgb env_s img then Inr img else convert_rgb env_s img) = Inr img' \<and>
       image_to_string env_s img' = Inr recognised \<longrightarrow>
       perform_ocr env_s image_path = Inr (strip recognised))"
  by (auto simp add: perform_ocr_def ocr_body_def split: sum.splits if_splits)

text \<open>C5 at environments without the libraries, with each of the three calls failing,
  and with all of them succeeding.\<close>

theorem C5_perform_ocr_witness:
  "perform_ocr (sample_env False (Inr ''i'') (Inr ''j'') (Inr '' hi '')) ''p.png'' = Inr []
   \<and> perform_ocr (sample_env True (Inl ()) (Inr ''j'') (Inr '' hi '')) ''p.png'' = Inr []
   \<and> perform_ocr (sample_env True (Inr ''i'') (Inl ()) (Inr '' hi '')) ''p.png'' = Inr []
   \<and> perform_ocr (sample_env True (Inr ''i'') (Inr ''j'') (Inl ())) ''p.png'' = Inr []
   \<and> perform_ocr (sample_env True (Inr ''i'') (Inr ''j'') (Inr '' hi '')) ''p.png'' = Inr ''hi''"
proof -
  have s: "strip '' hi '' = ''hi''"
    by (simp add: strip_defs)
  show ?thesis
    using C5_perform_ocr [where image_path = "''p.png''" and e = "()"
        and env = "sample_env True (Inr ''i'') (Inr ''j'') (Inr '' hi '')" and img = "''i''"
        and img' = "''j''" and recognised = "'' hi ''"
        and env_u = "sample_env False (Inr ''i'') (Inr ''j'') (Inr '' hi '')"
        and env_o = "sample_env True (Inl ()) (Inr ''j'') (Inr '' hi '')"
        and env_c = "sample_env True (Inr ''i'') (Inl ()) (Inr '' hi '')"
        and env_t = "sample_env True (Inr ''i'') (Inr ''j'') (Inl ())"
        and env_s = "sample_env True (Inr ''i'') (Inr ''j'') (Inr '' hi '')"]
    by (simp add: sample_env_def s)
qed

subsection \<open>C6: rows of the table and messages of the document\<close>





lemma parse_chat_Inr:
  assumes "parse_chat env isfile tmpdir listing read_lines = Inr out"
  obtains chat_name others st h calls where
    "filter (\<lambda>f. endswith (lower f) ''.txt'') listing = chat_name # others"
    "segment (read_lines (path_join tmpdir chat_name)) = Inr st"
    "attach_all env isfile tmpdir (messages st) (heap st) = Inr (h, calls)"
    "out = \<lparr>json_messages = map (\<lambda>a. h ! a) (messages st),
            excel_rows = to_table (map make_row (map (\<lambda>a. h ! a) (messages st))),
            ocr_calls = calls\<rparr>"
proof (cases "filter (\<lambda>f. endswith (lower f) ''.txt'') listing")
  case Nil
  with assms show ?thesis by (simp add: parse_chat_def)
next
  case (Cons c cs)
  show ?thesis
  proof (cases "segment (read_lines (path_join tmpdir c))")
    case (Inl e)
    with Cons assms show ?thesis by (simp add: parse_chat_def)
  next
    case (Inr st)
    show ?thesis
    proof (cases "attach_all env isfile tmpdir (messages st) (heap st)")
      case (Inl e)
      with Cons Inr assms show ?thesis by (simp add: parse_chat_def)
    next
      case r: (Inr hc)
      obtain h calls where hc: "hc = (h, calls)" by (cases hc)
      from assms Cons Inr r hc
      have "out = \<lparr>json_messages = map (\<lambda>a. h ! a) (messages st),
            excel_rows = to_table (map make_row (map (\<lambda>a. h ! a) (messages st))),
            ocr_calls = calls\<rparr>"
        by (simp add: parse_chat_def Let_def)
      with that Cons Inr r hc show ?thesis by blast
    qed
  qed
qed



lemma store_detail_lookup:
  "map_of (store_detail details segm) k =
     (case detail_of_segment segm of
        None \<Rightarrow> map_of details k
      | Some (c, v) \<Rightarrow> if c = k then Some v else map_of details k)"
  by (simp add: store_detail_def update_conv' split: option.splits)

lemma foldl_store_detail_lookup:
  "map_of (foldl store_detail details segms) k =
     (case filter (\<lambda>entry. fst entry = k) (List.map_filter detail_of_segment segms) of
        [] \<Rightarrow> map_of details k
      | entry # entries \<Rightarrow> Some (snd (last (entry # entries))))"
proof (induction segms arbitrary: details)
  case Nil
  show ?case by (simp add: List.map_filter_simps)
next
  case (Cons segm segms)
  show ?case
  proof (cases "detail_of_segment segm")
    case None
    then show ?thesis
      by (simp add: Cons.IH List.map_filter_simps store_detail_lookup split: list.splits)
  next
    case (Some entry)
    obtain c v where entry: "entry = (c, v)" by (cases entry)
    show ?thesis
      by (simp add: Cons.IH List.map_filter_simps store_detail_lookup Some entry
               split: list.splits)
  qed
qed

lemma store_detail_distinct:
  "distinct (map fst details) \<Longrightarrow> distinct (map fst (store_detail details segm))"
  by (simp add: store_detail_def distinct_update split: option.splits prod.splits)

lemma foldl_store_detail_distinct:
  "distinct (map fst details) \<Longrightarrow> distinct (map fst (foldl store_detail details segms))"
  by (induction segms arbitrary: details) (simp_all add: store_detail_distinct)

lemma canonical_key_Nil: "canonical_key [] = None"
  by (simp add: canonical_key_def)

lemma normalize_key_Nil: "normalize_key [] = []"
  by (simp add: normalize_key_def lower_def)

lemma detail_of_segment_eq:
  "detail_of_segment segm =
     (if CHR '':'' \<in> set segm then
        (case canonical_key (normalize_key (strip (takeWhile (\<lambda>c. c \<noteq> CHR '':'') segm))) of
           None \<Rightarrow> None
         | Some canonical \<Rightarrow>
             Some (canonical, clean_value (drop 1 (dropWhile (\<lambda>c. c \<noteq> CHR '':'') segm))))
      else None)"
  by (simp add: detail_of_segment_def Let_def canonical_key_Nil normalize_key_Nil
           split: option.splits)

lemma ex_details1:
  "extract_details (''Loan No: 123'' @ [nl] @ ''Name: Asha'' @ [nl] @ ''http://x.com/a:b'') =
     [(''loan_num'', ''123''), (''name'', ''Asha'')]"
  by code_simp

lemma ex_details2:
  "extract_details (''Status: open'' @ [nl] @ ''Status: closed'') = [(''status'', ''closed'')]"
  by code_simp

subsection \<open>C2: the detail extractor\<close>

text \<open>
  Claim C2.  For every message text and every canonical key, the value that
  \<open>extract_details\<close> gives for the key is the value of the last line of the text whose
  entry has that key, and there is none when no line has it; each key occurs once.
  The entry of a line: none if it has no colon; else the part before the first colon
  is trimmed, lower-cased and reduced to its letters a..z, the result is classified by
  the ordered rules, and the line is dropped if no rule applies, else it gives the
  canonical key with the cleaned part after that colon.  The two examples of the
  specification evaluate as it says.
\<close>

theorem C2_extract_details:
  "map_of (extract_details txt) k =
     (case filter (\<lambda>entry. fst entry = k) (List.map_filter detail_of_segment (split_on nl txt)) of
        [] \<Rightarrow> None
      | entry # entries \<Rightarrow> Some (snd (last (entry # entries))))
   \<and> distinct (map fst (extract_details txt))
   \<and> detail_of_segment segm =
     (if CHR '':'' \<in> set segm then
        (case canonical_key (normalize_key (strip (takeWhile (\<lambda>c. c \<noteq> CHR '':'') segm))) of
           None \<Rightarrow> None
         | Some canonical \<Rightarrow>
             Some (canonical, clean_value (drop 1 (dropWhile (\<lambda>c. c \<noteq> CHR '':'') segm))))
      else None)
   \<and> normalize_key key_raw =
       filter (\<lambda>c. c \<in> set ''abcdefghijklmnopqrstuvwxyz'') (map lower_char key_raw)
   \<and> extract_details (''Loan No: 123'' @ [nl] @ ''Name: Asha'' @ [nl] @ ''http://x.com/a:b'') =
       [(''loan_num'', ''123''), (''name'', ''Asha'')]
   \<and> extract_details (''Status: open'' @ [nl] @ ''Status: closed'') = [(''status'', ''closed'')]"
proof (intro conjI)
  show "map_of (extract_details txt) k =
     (case filter (\<lambda>entry. fst entry = k) (List.map_filter detail_of_segment (split_on nl txt)) of
        [] \<Rightarrow> None
      | entry # entries \<Rightarrow> Some (snd (last (entry # entries))))"
    unfolding extract_details_def by (simp add: foldl_store_detail_lookup split: list.splits)
  show "distinct (map fst (extract_details txt))"
    unfolding extract_details_def by (rule foldl_store_detail_distinct) simp
  show "normalize_key key_raw =
       filter (\<lambda>c. c \<in> set ''abcdefghijklmnopqrstuvwxyz'') (map lower_char key_raw)"
    by (simp only: normalize_key_def lower_def)
qed (rule detail_of_segment_eq ex_details1 ex_details2)+











subsection \<open>C8: leading hyphens of a value\<close>




subsection \<open>Facts about the matcher\<close>

lemma concat_map_concat:
  "concat (map f (concat (map g ks))) = concat (map (\<lambda>k. concat (map f (g k))) ks)"
  by (induction ks) simp_all

lemma rmatch_append:
  "rmatch s (xs @ ys) rest ms =
     concat (map (\<lambda>(rest', ms'). rmatch s ys rest' ms') (rmatch s xs rest ms))"
proof (induction s xs rest ms rule: rmatch.induct)
  case (6 s P lo hi greedy r rest ms)
  then show ?case
    by (simp add: concat_map_concat cong: map_cong)
next
  case (8 s alts r rest ms)
  have "map (\<lambda>a. if startswith_ci rest a then rmatch s (r @ ys) (drop (length a) rest) ms else []) alts =
        map (\<lambda>a. concat (map (\<lambda>(rest', ms'). rmatch s ys rest' ms')
               (if startswith_ci rest a then rmatch s r (drop (length a) rest) ms else []))) alts"
    by (rule map_cong) (simp_all add: 8)
  then show ?case
    by (simp only: append_Cons rmatch.simps concat_map_concat)
qed (simp_all split: list.splits)

lemma rmatch_marks:
  "(rest', ms') \<in> set (rmatch s items rest ms) \<Longrightarrow>
     \<exists>new. ms' = ms @ new \<and> length new = length (filter (\<lambda>i. i = Mark) items)"
proof (induction s items rest ms rule: rmatch.induct)
  case (7 s r rest ms)
  then obtain new where "ms' = (ms @ [rest]) @ new" "length new = length (filter (\<lambda>i. i = Mark) r)"
    by auto
  then show ?case by simp
qed (auto split: list.splits if_splits)

lemma groups_append:
  "even (length xs) \<Longrightarrow> groups (xs @ ys) = groups xs @ groups ys"
  by (induction xs rule: groups.induct) simp_all



lemma takeWhile_all: "(\<And>x. x \<in> set xs \<Longrightarrow> P x) \<Longrightarrow> takeWhile P xs = xs"
  by (induction xs) simp_all









subsection \<open>C10: a colon in the text of a header line\<close>




subsection \<open>Facts about trimming and invariants of the segmenter\<close>

lemma lstrip_head: "lstrip s = [] \<or> \<not> is_space (hd (lstrip s))"
  unfolding lstrip_def by (metis hd_dropWhile)

lemma strip_is_trimmed: "trimmed (strip s)"
proof -
  define u where "u = lstrip s"
  define v where "v = dropWhile is_space (rev u)"
  have s: "strip s = rev v"
    by (simp add: strip_def rstrip_def u_def v_def)
  show ?thesis
  proof (cases "v = []")
    case True
    with s show ?thesis by (simp add: trimmed_def)
  next
    case False
    then have l: "\<not> is_space (hd v)"
      unfolding v_def by (metis hd_dropWhile)
    have "rev u = takeWhile is_space (rev u) @ v"
      by (simp add: v_def)
    then have "u = rev v @ rev (takeWhile is_space (rev u))"
      by (metis rev_append rev_rev_ident)
    with False have "hd u = hd (rev v)"
      by (metis hd_append2 rev_is_Nil_conv)
    moreover from False have "u \<noteq> []"
      by (auto simp add: v_def)
    with lstrip_head [of s] have "\<not> is_space (hd u)"
      by (simp add: u_def)
    ultimately have h: "\<not> is_space (hd (rev v))"
      by simp
    from False l have "\<not> is_space (last (rev v))"
      by (simp add: last_rev)
    with h s show ?thesis
      by (simp add: trimmed_def)
  qed
qed

lemma strip_subset: "set (strip s) \<subseteq> set s"
proof -
  have "set (strip s) \<subseteq> set (lstrip s)"
    unfolding strip_def rstrip_def using set_dropWhileD by fastforce
  also have "\<dots> \<subseteq> set s"
    unfolding lstrip_def using set_dropWhileD by fastforce
  finally show ?thesis .
qed

lemma first_line_no_nl: "nl \<notin> set s \<Longrightarrow> first_line s = s"
  unfolding first_line_def by (rule takeWhile_all) auto

lemma first_line_append_nl: "first_line (s @ nl # t) = first_line s"
  unfolding first_line_def by (induction s) simp_all

lemma dot_tail_marks:
  assumes "(rest', ms') \<in> set (rmatch s [Mark, Rep dot 0 None True, Mark, Eol] rest ms)"
  shows "\<exists>k. k \<le> length (takeWhile dot rest) \<and> ms' = ms @ [rest, drop k rest]"
proof -
  from assms obtain k where k: "k \<in> set (rep_counts dot 0 None True rest)"
    and m: "(rest', ms') \<in> set (rmatch s [Mark, Eol] (drop k rest) (ms @ [rest]))"
    by auto
  from m have "ms' = ms @ [rest, drop k rest]"
    by (simp split: if_splits)
  moreover from k have "k \<le> length (takeWhile dot rest)"
    by (auto simp add: rep_counts_def Let_def)
  ultimately show ?thesis
    by blast
qed

lemma last_group_dot:
  assumes m: "re_match (pre @ [Mark, Rep dot 0 None True, Mark, Eol]) line = Some gs"
    and e: "even (length (filter (\<lambda>i. i = Mark) pre))"
  shows "gs \<noteq> [] \<and> nl \<notin> set (last gs)"
proof -
  let ?T = "[Mark, Rep dot 0 None True, Mark, Eol]"
  from m obtain rest' ms' others where
    r: "rmatch line (pre @ ?T) line [] = (rest', ms') # others" and gs: "gs = groups ms'"
    by (auto simp add: re_match_def split: list.splits)
  then have "(rest', ms') \<in> set (rmatch line (pre @ ?T) line [])"
    by simp
  then obtain r0 m0 where h: "(r0, m0) \<in> set (rmatch line pre line [])"
    and t: "(rest', ms') \<in> set (rmatch line ?T r0 m0)"
    by (auto simp add: rmatch_append)
  from dot_tail_marks [OF t] obtain k where k: "k \<le> length (takeWhile dot r0)"
    and ms': "ms' = m0 @ [r0, drop k r0]"
    by blast
  from rmatch_marks [OF h] e have "even (length m0)"
    by auto
  then have g: "gs = groups m0 @ [take (length r0 - length (drop k r0)) r0]"
    by (simp add: gs ms' groups_append)
  have "length (takeWhile dot r0) \<le> length r0"
    by (rule length_takeWhile_le)
  with k have "length r0 - length (drop k r0) = k"
    by simp
  with g have l: "last gs = take k r0" and n: "gs \<noteq> []"
    by simp_all
  have "take k r0 = take k (takeWhile dot r0)"
    using k by (metis takeWhile_dropWhile_id take_append append_Nil2 diff_is_0_eq take_0)
  then have "set (take k r0) \<subseteq> set (takeWhile dot r0)"
    by (metis set_take_subset)
  moreover have "nl \<notin> set (takeWhile dot r0)"
    using set_takeWhileD [of nl dot r0] by (auto simp add: dot_def)
  ultimately show ?thesis
    using l n by auto
qed

lemma regular_match_text:
  assumes "regular_match line = Some (d, t, s, m)"
  shows "nl \<notin> set m"
proof -
  let ?pre = "header_re @ [Mark, Rep (\<lambda>c. c \<noteq> CHR '':'') 1 None False, Mark, Lit CHR '':'',
                          Rep is_space 0 None True]"
  have re: "regular_re = ?pre @ [Mark, Rep dot 0 None True, Mark, Eol]"
    by (simp add: regular_re_def regular_tail_def)
  have e: "even (length (filter (\<lambda>i. i = Mark) ?pre))"
    by (simp add: header_re_def date_re_def time_re_def)
  from assms have "re_match regular_re line = Some [d, t, s, m]"
    by (auto simp add: regular_match_def split: option.splits list.splits)
  with re have "re_match (?pre @ [Mark, Rep dot 0 None True, Mark, Eol]) line = Some [d, t, s, m]"
    by simp
  from last_group_dot [OF this e] show ?thesis
    by simp
qed

lemma system_match_text:
  assumes "system_match line = Some (d, t, m)"
  shows "nl \<notin> set m"
proof -
  have re: "system_re = header_re @ [Mark, Rep dot 0 None True, Mark, Eol]"
    by (simp add: system_re_def system_tail_def)
  have e: "even (length (filter (\<lambda>i. i = Mark) header_re))"
    by (simp add: header_re_def date_re_def time_re_def)
  from assms have "re_match system_re line = Some [d, t, m]"
    by (auto simp add: system_match_def split: option.splits list.splits)
  with re have "re_match (header_re @ [Mark, Rep dot 0 None True, Mark, Eol]) line = Some [d, t, m]"
    by simp
  from last_group_dot [OF this e] show ?thesis
    by simp
qed

lemma feed_line_cases:
  assumes "feed_line st raw_line = Inr st'"
  obtains (header) g new where "nl \<notin> set g" "msg_text new = strip g" "attachments new = []"
      "st' = new_message new (append_current st)"
  | (continuation) a where "current_msg st = Some a"
      "st' = append_text a (rstrip_chars [nl] raw_line) st"
  | (dropped) "current_msg st = None" "st' = st"
proof (cases "regular_match (rstrip_chars [nl] raw_line)")
  case (Some grp)
  obtain d t s m where grp: "grp = (d, t, s, m)"
    by (cases grp)
  from Some grp have n: "nl \<notin> set m"
    by (simp add: regular_match_text)
  from assms Some grp obtain di ti where
    "st' = new_message \<lparr>date = di, time = ti, sender = strip s, msg_text = strip m,
                         attachments = []\<rparr> (append_current st)"
    by (auto simp add: feed_line_def Let_def split: sum.splits)
  with n show ?thesis
    by (intro header [of m]) simp_all
next
  case None
  show ?thesis
  proof (cases "system_match (rstrip_chars [nl] raw_line)")
    case (Some grp)
    obtain d t m where grp: "grp = (d, t, m)"
      by (cases grp)
    from Some grp have n: "nl \<notin> set m"
      by (simp add: system_match_text)
    from assms None Some grp obtain di ti where
      "st' = new_message \<lparr>date = di, time = ti, sender = ''System'', msg_text = strip m,
                           attachments = []\<rparr> (append_current st)"
      by (auto simp add: feed_line_def Let_def split: sum.splits)
    with n show ?thesis
      by (intro header [of m]) simp_all
  next
    case sys: None
    show ?thesis
    proof (cases "current_msg st")
      case (Some a)
      with assms None sys have "st' = append_text a (rstrip_chars [nl] raw_line) st"
        by (simp add: feed_line_def Let_def)
      with Some show ?thesis
        by (rule continuation)
    next
      case cur: None
      with assms None sys have "st' = st"
        by (simp add: feed_line_def Let_def)
      with cur show ?thesis
        by (rule dropped)
    qed
  qed
qed

lemma new_message_fields:
  "heap (new_message new (append_current st)) = heap st @ [new]"
  "messages (new_message new (append_current st)) =
     messages st @ (case current_msg st of None \<Rightarrow> [] | Some c \<Rightarrow> [c])"
  "current_msg (new_message new (append_current st)) = Some (length (heap st))"
  by (simp_all add: new_message_def append_current_def split: option.splits)

lemma append_text_fields:
  "heap (append_text a line st) =
     (heap st)[a := (heap st ! a)\<lparr>msg_text := msg_text (heap st ! a) @ nl # line\<rparr>]"
  "messages (append_text a line st) = messages st"
  "current_msg (append_text a line st) = current_msg st"
  by (simp_all add: append_text_def)

lemma feed_line_valid:
  assumes v: "valid_refs st" and f: "feed_line st raw_line = Inr st'"
  shows "valid_refs st'"
  using f
proof (cases rule: feed_line_cases)
  case (header g new)
  from v show ?thesis
    by (cases "current_msg st")
       (auto simp add: header(4) valid_refs_def new_message_fields list_all_iff)
next
  case (continuation a)
  from v show ?thesis
    by (simp add: continuation valid_refs_def append_text_fields)
next
  case dropped
  with v show ?thesis by simp
qed

lemma feed_line_fresh:
  assumes h: "fresh_heap (heap st)" and f: "feed_line st raw_line = Inr st'"
  shows "fresh_heap (heap st')"
  using f
proof (cases rule: feed_line_cases)
  case (header g new)
  from header(1) strip_subset [of g] have "nl \<notin> set (strip g)"
    by auto
  then have "first_line (msg_text new) = strip g"
    by (simp add: header(2) first_line_no_nl)
  then have "trimmed (first_line (msg_text new))"
    by (simp add: strip_is_trimmed)
  with h header(3) show ?thesis
    by (simp add: header(4) new_message_fields fresh_heap_def)
next
  case (continuation a)
  let ?line = "rstrip_chars [nl] raw_line"
  let ?x = "(heap st ! a)\<lparr>msg_text := msg_text (heap st ! a) @ nl # ?line\<rparr>"
  show ?thesis
  proof (cases "a < length (heap st)")
    case True
    then have "heap st ! a \<in> set (heap st)"
      by simp
    with h have "trimmed (first_line (msg_text (heap st ! a))) \<and> attachments (heap st ! a) = []"
      by (simp add: fresh_heap_def list_all_iff)
    then have x: "trimmed (first_line (msg_text ?x)) \<and> attachments ?x = []"
      by (simp add: first_line_append_nl)
    have "set ((heap st)[a := ?x]) \<subseteq> insert ?x (set (heap st))"
      by (rule set_update_subset_insert)
    with h x show ?thesis
      unfolding continuation(2) append_text_fields fresh_heap_def list_all_iff by blast
  next
    case False
    then have "(heap st)[a := ?x] = heap st"
      by (intro list_update_beyond) simp
    with h show ?thesis
      by (simp add: continuation(2) append_text_fields)
  qed
next
  case dropped
  with h show ?thesis by simp
qed

lemma feed_line_sealed:
  assumes v: "valid_refs st" and f: "feed_line st raw_line = Inr st'"
    and a: "a \<in> set (messages st)"
  shows "heap st' ! a = heap st ! a \<and> a \<in> set (messages st')"
  using f
proof (cases rule: feed_line_cases)
  case (header g new)
  from v a have "a < length (heap st)"
    by (simp add: valid_refs_def list_all_iff)
  with a show ?thesis
    by (simp add: header(4) new_message_fields nth_append)
next
  case (continuation c)
  from v a continuation(1) have "c \<noteq> a"
    by (auto simp add: valid_refs_def)
  with a show ?thesis
    by (simp add: continuation(2) append_text_fields)
next
  case dropped
  with a show ?thesis by simp
qed

lemma feed_lines_append:
  "feed_lines st (fh1 @ fh2) =
     (case feed_lines st fh1 of Inl e \<Rightarrow> Inl e | Inr st1 \<Rightarrow> feed_lines st1 fh2)"
  by (induction fh1 arbitrary: st) (simp_all split: sum.splits)

lemma feed_lines_invariants:
  assumes "feed_lines st fh = Inr st'" and "valid_refs st" and "fresh_heap (heap st)"
  shows "valid_refs st' \<and> fresh_heap (heap st') \<and>
         (\<forall>a \<in> set (messages st). heap st' ! a = heap st ! a \<and> a \<in> set (messages st'))"
  using assms
proof (induction fh arbitrary: st)
  case Nil
  then show ?case by simp
next
  case (Cons raw_line fh)
  from Cons.prems(1) obtain st1 where s1: "feed_line st raw_line = Inr st1"
    and rest: "feed_lines st1 fh = Inr st'"
    by (auto split: sum.splits)
  from feed_line_valid [OF Cons.prems(2) s1] have v1: "valid_refs st1" .
  from feed_line_fresh [OF Cons.prems(3) s1] have h1: "fresh_heap (heap st1)" .
  from Cons.IH [OF rest v1 h1] feed_line_sealed [OF Cons.prems(2) s1]
  show ?case
    by auto
qed

lemma init_state_ok: "valid_refs init_state" "fresh_heap (heap init_state)"
  by (simp_all add: init_state_def valid_refs_def fresh_heap_def)

subsection \<open>The loop over the sealed messages\<close>

lemma attach_message_frame:
  assumes am: "attach_message env isfile dir a h = Inr (h1, calls)"
    and g: "\<forall>m \<in> set h. attachments m = [] \<or> resolved env isfile dir m"
  shows "length h1 = length h"
    and "\<forall>m \<in> set h1. attachments m = [] \<or> resolved env isfile dir m"
    and "\<forall>i < length h. date (h1 ! i) = date (h ! i) \<and> time (h1 ! i) = time (h ! i) \<and>
           sender (h1 ! i) = sender (h ! i) \<and> msg_text (h1 ! i) = msg_text (h ! i) \<and>
           (i \<noteq> a \<longrightarrow> h1 ! i = h ! i)"
    and "a < length h \<longrightarrow> resolved env isfile dir (h1 ! a)"
proof -
  from resolve_all_total [of env isfile dir "attachment_names (msg_text (h ! a))"]
  obtain atts calls' where r: "resolve_all env isfile dir (attachment_names (msg_text (h ! a))) =
      Inr (atts, calls')"
    by blast
  let ?x = "(h ! a)\<lparr>attachments := atts\<rparr>"
  from am r have h1: "h1 = (if atts \<noteq> [] then h[a := ?x] else h)"
    by (simp add: attach_message_def)
  from r have x: "resolved env isfile dir ?x"
    by (auto simp add: resolved_def)
  show "length h1 = length h"
    by (simp add: h1)
  show "\<forall>m \<in> set h1. attachments m = [] \<or> resolved env isfile dir m"
  proof (cases "atts = []")
    case True
    with g h1 show ?thesis by simp
  next
    case False
    have "set (h[a := ?x]) \<subseteq> insert ?x (set h)"
      by (rule set_update_subset_insert)
    with g x False h1 show ?thesis
      by auto
  qed
  show "\<forall>i < length h. date (h1 ! i) = date (h ! i) \<and> time (h1 ! i) = time (h ! i) \<and>
           sender (h1 ! i) = sender (h ! i) \<and> msg_text (h1 ! i) = msg_text (h ! i) \<and>
           (i \<noteq> a \<longrightarrow> h1 ! i = h ! i)"
  proof (intro allI impI)
    fix i
    assume i: "i < length h"
    show "date (h1 ! i) = date (h ! i) \<and> time (h1 ! i) = time (h ! i) \<and>
           sender (h1 ! i) = sender (h ! i) \<and> msg_text (h1 ! i) = msg_text (h ! i) \<and>
           (i \<noteq> a \<longrightarrow> h1 ! i = h ! i)"
    proof (cases "i = a")
      case True
      with i show ?thesis by (simp add: h1)
    next
      case False
      then show ?thesis by (simp add: h1)
    qed
  qed
  show "a < length h \<longrightarrow> resolved env isfile dir (h1 ! a)"
  proof
    assume a: "a < length h"
    show "resolved env isfile dir (h1 ! a)"
    proof (cases "atts = []")
      case True
      from a g have "attachments (h ! a) = [] \<or> resolved env isfile dir (h ! a)"
        by simp
      with r True have "resolved env isfile dir (h ! a)"
        by (auto simp add: resolved_def)
      with True h1 show ?thesis by simp
    next
      case False
      with a x h1 show ?thesis by simp
    qed
  qed
qed

lemma attach_all_frame:
  assumes "attach_all env isfile dir as h = Inr (h', calls)"
    and "\<forall>m \<in> set h. attachments m = [] \<or> resolved env isfile dir m"
  shows "length h' = length h \<and>
         (\<forall>m \<in> set h'. attachments m = [] \<or> resolved env isfile dir m) \<and>
         (\<forall>i < length h. date (h' ! i) = date (h ! i) \<and> time (h' ! i) = time (h ! i) \<and>
            sender (h' ! i) = sender (h ! i) \<and> msg_text (h' ! i) = msg_text (h ! i) \<and>
            (i \<in> set as \<longrightarrow> resolved env isfile dir (h' ! i)) \<and>
            (i \<notin> set as \<longrightarrow> h' ! i = h ! i))"
  using assms
proof (induction as arbitrary: h calls)
  case Nil
  then show ?case by simp
next
  case (Cons a as)
  from Cons.prems(1) obtain h1 c1 c2 where
    am: "attach_message env isfile dir a h = Inr (h1, c1)"
    and rest: "attach_all env isfile dir as h1 = Inr (h', c2)"
    by (auto split: sum.splits prod.splits)
  note f = attach_message_frame [OF am Cons.prems(2)]
  note ih = Cons.IH [OF rest f(2)]
  from ih f(1) have len: "length h' = length h"
    by simp
  have "date (h' ! i) = date (h ! i) \<and> time (h' ! i) = time (h ! i) \<and>
        sender (h' ! i) = sender (h ! i) \<and> msg_text (h' ! i) = msg_text (h ! i) \<and>
        (i \<in> set (a # as) \<longrightarrow> resolved env isfile dir (h' ! i)) \<and>
        (i \<notin> set (a # as) \<longrightarrow> h' ! i = h ! i)" if i: "i < length h" for i
  proof -
    from i f(1) have i1: "i < length h1" by simp
    from ih i1 have a1: "date (h' ! i) = date (h1 ! i) \<and> time (h' ! i) = time (h1 ! i) \<and>
        sender (h' ! i) = sender (h1 ! i) \<and> msg_text (h' ! i) = msg_text (h1 ! i)"
      and a2: "i \<in> set as \<longrightarrow> resolved env isfile dir (h' ! i)"
      and a3: "i \<notin> set as \<longrightarrow> h' ! i = h1 ! i"
      by simp_all
    from f(3) i have b1: "date (h1 ! i) = date (h ! i) \<and> time (h1 ! i) = time (h ! i) \<and>
        sender (h1 ! i) = sender (h ! i) \<and> msg_text (h1 ! i) = msg_text (h ! i)"
      and b2: "i \<noteq> a \<longrightarrow> h1 ! i = h ! i"
      by simp_all
    from f(4) i have b3: "i = a \<longrightarrow> resolved env isfile dir (h1 ! i)"
      by simp
    from a1 b1 a2 a3 b2 b3 show ?thesis
      by auto
  qed
  with len ih show ?case
    by blast
qed

lemma segment_invariants:
  assumes "segment fh = Inr st"
  shows "list_all (\<lambda>a. a < length (heap st)) (messages st) \<and> fresh_heap (heap st)"
proof -
  from assms obtain st0 where f: "feed_lines init_state fh = Inr st0"
    and st: "st = append_current st0"
    by (auto simp add: segment_def split: sum.splits)
  from feed_lines_invariants [OF f init_state_ok] have "valid_refs st0" "fresh_heap (heap st0)"
    by simp_all
  then show ?thesis
    by (cases "current_msg st0") (simp_all add: st append_current_def valid_refs_def)
qed

lemma fresh_heap_unresolved:
  "fresh_heap h \<Longrightarrow> \<forall>m \<in> set h. attachments m = [] \<or> resolved env isfile dir m"
  by (simp add: fresh_heap_def list_all_iff)

lemma ex_trailing_blank:
  "rstrip_chars [nl] ''world '' = ''world ''"
  "regular_match ''world '' = None" "system_match ''world '' = None"
  "attachment_names (''Hello'' @ [nl] @ ''world '') = []"
  by code_simp+

lemma ex_segment_trailing_blank:
  "segment [''9/8/25, 5:58 PM - John Doe: Hello'', ''world ''] =
     Inr \<lparr>heap = [\<lparr>date = ''2025-09-08'', time = ''17:58'', sender = ''John Doe'',
                     msg_text = ''Hello'' @ [nl] @ ''world '', attachments = []\<rparr>],
          messages = [0], current_msg = Some 0\<rparr>"
  by (simp add: segment_def feed_line_def Let_def ex_rstrip ex_line1 ex_trailing_blank ex_strips
        date_9_8_25 time_5_58 state_defs)

subsection \<open>C7: whitespace around a message text\<close>

text \<open>
  Claim C7 as stated fails: a continuation line is appended as it is, so the chat
  \<open>9/8/25, 5:58 PM - John Doe: Hello\<close>, \<open>world \<close> gives one message whose text
  \<open>Hello\nworld \<close> ends in a blank.
\<close>

theorem C7_counterexample:
  "map_sum id json_messages
     (parse_chat (sample_env False (Inl ()) (Inl ()) (Inl ())) sample_isfile ''/tmp/x''
        [''IMG-001.jpg'', ''chat.txt'']
        (read_sample [''9/8/25, 5:58 PM - John Doe: Hello'', ''world ''])) =
     Inr [\<lparr>date = ''2025-09-08'', time = ''17:58'', sender = ''John Doe'',
           msg_text = ''Hello'' @ [nl] @ ''world '', attachments = []\<rparr>]
   \<and> \<not> trimmed (''Hello'' @ [nl] @ ''world '')"
proof
  show "map_sum id json_messages
     (parse_chat (sample_env False (Inl ()) (Inl ()) (Inl ())) sample_isfile ''/tmp/x''
        [''IMG-001.jpg'', ''chat.txt'']
        (read_sample [''9/8/25, 5:58 PM - John Doe: Hello'', ''world ''])) =
     Inr [\<lparr>date = ''2025-09-08'', time = ''17:58'', sender = ''John Doe'',
           msg_text = ''Hello'' @ [nl] @ ''world '', attachments = []\<rparr>]"
    using ex_trailing_blank(4)
    by (simp add: parse_chat_def sample_txt sample_paths read_sample_def ex_segment_trailing_blank
          attach_message_def)
  show "\<not> trimmed (''Hello'' @ [nl] @ ''world '')"
    by (simp add: trimmed_def is_space_def whitespace_def)
qed

text \<open>
  Claim C7, amended.  For every message in the output, the first line of the text (the
  part taken from the header line) has no leading and no trailing whitespace; so a text
  of one line is trimmed.  Continuation lines follow it as they were read.
\<close>

theorem C7_first_line_trimmed:
  "parse_chat env isfile tmpdir listing read_lines = Inr out \<longrightarrow>
     list_all (\<lambda>m. trimmed (first_line (msg_text m)) \<and>
                    (nl \<notin> set (msg_text m) \<longrightarrow> trimmed (msg_text m)))
       (json_messages out)"
proof
  assume "parse_chat env isfile tmpdir listing read_lines = Inr out"
  then show "list_all (\<lambda>m. trimmed (first_line (msg_text m)) \<and>
                    (nl \<notin> set (msg_text m) \<longrightarrow> trimmed (msg_text m)))
       (json_messages out)"
  proof (rule parse_chat_Inr)
    fix chat_name st h calls
    assume seg: "segment (read_lines (path_join tmpdir chat_name)) = Inr st"
      and att: "attach_all env isfile tmpdir (messages st) (heap st) = Inr (h, calls)"
      and out: "out = \<lparr>json_messages = map (\<lambda>a. h ! a) (messages st),
            excel_rows = to_table (map make_row (map (\<lambda>a. h ! a) (messages st))),
            ocr_calls = calls\<rparr>"
    from segment_invariants [OF seg] have refs: "list_all (\<lambda>a. a < length (heap st)) (messages st)"
      and fresh: "fresh_heap (heap st)"
      by simp_all
    note frame = attach_all_frame [OF att fresh_heap_unresolved [OF fresh]]
    have "trimmed (first_line (msg_text (h ! a)))" if "a \<in> set (messages st)" for a
    proof -
      from that refs have a: "a < length (heap st)"
        by (simp add: list_all_iff)
      with fresh have "trimmed (first_line (msg_text (heap st ! a)))"
        by (simp add: fresh_heap_def list_all_length)
      with frame a show ?thesis
        by simp
    qed
    then have "list_all (\<lambda>m. trimmed (first_line (msg_text m))) (map (\<lambda>a. h ! a) (messages st))"
      by (simp add: list_all_iff)
    then have "list_all (\<lambda>m. trimmed (first_line (msg_text m)) \<and>
                    (nl \<notin> set (msg_text m) \<longrightarrow> trimmed (msg_text m)))
       (map (\<lambda>a. h ! a) (messages st))"
      by (auto simp add: list_all_iff first_line_no_nl)
    then show ?thesis
      by (simp add: out)
  qed
qed

text \<open>C7 (amended) at the three-line example.\<close>

theorem C7_first_line_trimmed_witness:
  "\<exists>out. parse_chat (sample_env False (Inl ()) (Inl ()) (Inl ())) sample_isfile ''/tmp/x''
           [''IMG-001.jpg'', ''chat.txt'']
           (\<lambda>path. [''9/8/25, 5:58 PM - John Doe: Hello'', ''world'',
                      ''9/8/25, 5:59 PM - Jane: Bye'']) = Inr out \<and>
         length (json_messages out) = 2 \<and>
         list_all (\<lambda>m. trimmed (first_line (msg_text m)) \<and>
                        (nl \<notin> set (msg_text m) \<longrightarrow> trimmed (msg_text m)))
           (json_messages out)"
proof -
  let ?env = "sample_env False (Inl ()) (Inl ()) (Inl ())"
  let ?msgs = "[\<lparr>date = ''2025-09-08'', time = ''17:58'', sender = ''John Doe'',
            msg_text = ''Hello'' @ [nl] @ ''world'', attachments = []\<rparr>,
           \<lparr>date = ''2025-09-08'', time = ''17:59'', sender = ''Jane'',
            msg_text = ''Bye'', attachments = []\<rparr>]"
  let ?out = "\<lparr>json_messages = ?msgs, excel_rows = to_table (map make_row ?msgs), ocr_calls = []\<rparr>"
  have e: "parse_chat ?env sample_isfile ''/tmp/x'' [''IMG-001.jpg'', ''chat.txt'']
        (\<lambda>path. [''9/8/25, 5:58 PM - John Doe: Hello'', ''world'', ''9/8/25, 5:59 PM - Jane: Bye''])
      = Inr ?out"
    by (rule ex_parse_chat)
  note t = mp [OF C7_first_line_trimmed [of ?env sample_isfile "''/tmp/x''" "[''IMG-001.jpg'', ''chat.txt'']"
        "\<lambda>path. [''9/8/25, 5:58 PM - John Doe: Hello'', ''world'', ''9/8/25, 5:59 PM - Jane: Bye'']"
        ?out] e]
  have "length (json_messages ?out) = 2"
    by simp
  with e t show ?thesis
    by (intro exI [of _ ?out] conjI)
qed

lemma ex_image_lines:
  "rstrip_chars [nl] ''9/8/25, 5:58 PM - John: IMG-001.jpg'' = ''9/8/25, 5:58 PM - John: IMG-001.jpg''"
  "regular_match ''9/8/25, 5:58 PM - John: IMG-001.jpg'' =
     Some (''9/8/25'', ''5:58 PM'', ''John'', ''IMG-001.jpg'')"
  "strip ''John'' = ''John''" "strip ''IMG-001.jpg'' = ''IMG-001.jpg''"
  "attachment_names ''IMG-001.jpg'' = [''IMG-001.jpg'']"
  by code_simp+

lemma ex_feed_image_lines:
  "feed_lines init_state [''9/8/25, 5:58 PM - John: IMG-001.jpg'', ''9/8/25, 5:59 PM - Jane: Bye''] =
     Inr \<lparr>heap = [\<lparr>date = ''2025-09-08'', time = ''17:58'', sender = ''John'',
                     msg_text = ''IMG-001.jpg'', attachments = []\<rparr>,
                   \<lparr>date = ''2025-09-08'', time = ''17:59'', sender = ''Jane'',
                     msg_text = ''Bye'', attachments = []\<rparr>],
          messages = [0], current_msg = Some 1\<rparr>"
  by (simp add: feed_line_def Let_def ex_rstrip ex_line3 ex_image_lines ex_strips
        date_9_8_25 time_5_58 time_5_59 state_defs)

lemma ex_resolve_image:
  "resolve_attachment (sample_env False (Inl ()) (Inl ()) (Inl ())) sample_isfile ''/tmp/x'' ''IMG-001.jpg'' =
     Inr (\<lparr>filename = ''IMG-001.jpg'', ocr_text = []\<rparr>, [''/tmp/x/IMG-001.jpg''])"
  by (simp add: resolve_attachment_def Let_def sample_paths sample_images sample_isfile_def
        perform_ocr_def sample_env_def)

lemma ex_attach_image:
  "attach_all (sample_env False (Inl ()) (Inl ()) (Inl ())) sample_isfile ''/tmp/x'' [0, 1]
     [\<lparr>date = ''2025-09-08'', time = ''17:58'', sender = ''John'',
       msg_text = ''IMG-001.jpg'', attachments = []\<rparr>,
      \<lparr>date = ''2025-09-08'', time = ''17:59'', sender = ''Jane'',
       msg_text = ''Bye'', attachments = []\<rparr>] =
   Inr ([\<lparr>date = ''2025-09-08'', time = ''17:58'', sender = ''John'',
          msg_text = ''IMG-001.jpg'',
          attachments = [\<lparr>filename = ''IMG-001.jpg'', ocr_text = []\<rparr>]\<rparr>,
         \<lparr>date = ''2025-09-08'', time = ''17:59'', sender = ''Jane'',
          msg_text = ''Bye'', attachments = []\<rparr>],
        [''/tmp/x/IMG-001.jpg''])"
  using ex_names(2) by (simp add: attach_message_def ex_image_lines ex_resolve_image)

lemma ex_segment_image_lines:
  "segment [''9/8/25, 5:58 PM - John: IMG-001.jpg'', ''9/8/25, 5:59 PM - Jane: Bye''] =
     Inr \<lparr>heap = [\<lparr>date = ''2025-09-08'', time = ''17:58'', sender = ''John'',
                     msg_text = ''IMG-001.jpg'', attachments = []\<rparr>,
                   \<lparr>date = ''2025-09-08'', time = ''17:59'', sender = ''Jane'',
                     msg_text = ''Bye'', attachments = []\<rparr>],
          messages = [0, 1], current_msg = Some 1\<rparr>"
  unfolding segment_def by (simp only: ex_feed_image_lines) (simp add: append_current_def)

subsection \<open>C9: sealed messages\<close>

text \<open>
  Claim C9 as stated fails for the attachments: after the two lines
  \<open>9/8/25, 5:58 PM - John: IMG-001.jpg\<close> and \<open>9/8/25, 5:59 PM - Jane: Bye\<close> the first
  message is sealed (\<open>messages\<close> refers to it) with no attachments, and the later loop
  over \<open>messages\<close> replaces the attachments of that same object by the one found in its
  text.
\<close>

theorem C9_counterexample:
  "feed_lines init_state [''9/8/25, 5:58 PM - John: IMG-001.jpg'', ''9/8/25, 5:59 PM - Jane: Bye''] =
     Inr \<lparr>heap = [\<lparr>date = ''2025-09-08'', time = ''17:58'', sender = ''John'',
                     msg_text = ''IMG-001.jpg'', attachments = []\<rparr>,
                   \<lparr>date = ''2025-09-08'', time = ''17:59'', sender = ''Jane'',
                     msg_text = ''Bye'', attachments = []\<rparr>],
          messages = [0], current_msg = Some 1\<rparr>
   \<and> attach_all (sample_env False (Inl ()) (Inl ()) (Inl ())) sample_isfile ''/tmp/x'' [0, 1]
     [\<lparr>date = ''2025-09-08'', time = ''17:58'', sender = ''John'',
       msg_text = ''IMG-001.jpg'', attachments = []\<rparr>,
      \<lparr>date = ''2025-09-08'', time = ''17:59'', sender = ''Jane'',
       msg_text = ''Bye'', attachments = []\<rparr>] =
     Inr ([\<lparr>date = ''2025-09-08'', time = ''17:58'', sender = ''John'',
            msg_text = ''IMG-001.jpg'',
            attachments = [\<lparr>filename = ''IMG-001.jpg'', ocr_text = []\<rparr>]\<rparr>,
           \<lparr>date = ''2025-09-08'', time = ''17:59'', sender = ''Jane'',
            msg_text = ''Bye'', attachments = []\<rparr>],
          [''/tmp/x/IMG-001.jpg''])
   \<and> map_sum id json_messages
       (parse_chat (sample_env False (Inl ()) (Inl ()) (Inl ())) sample_isfile ''/tmp/x''
          [''IMG-001.jpg'', ''chat.txt'']
          (read_sample [''9/8/25, 5:58 PM - John: IMG-001.jpg'', ''9/8/25, 5:59 PM - Jane: Bye''])) =
     Inr [\<lparr>date = ''2025-09-08'', time = ''17:58'', sender = ''John'',
           msg_text = ''IMG-001.jpg'',
           attachments = [\<lparr>filename = ''IMG-001.jpg'', ocr_text = []\<rparr>]\<rparr>,
          \<lparr>date = ''2025-09-08'', time = ''17:59'', sender = ''Jane'',
           msg_text = ''Bye'', attachments = []\<rparr>]"
proof (intro conjI)
  show "map_sum id json_messages
       (parse_chat (sample_env False (Inl ()) (Inl ()) (Inl ())) sample_isfile ''/tmp/x''
          [''IMG-001.jpg'', ''chat.txt'']
          (read_sample [''9/8/25, 5:58 PM - John: IMG-001.jpg'', ''9/8/25, 5:59 PM - Jane: Bye''])) =
     Inr [\<lparr>date = ''2025-09-08'', time = ''17:58'', sender = ''John'',
           msg_text = ''IMG-001.jpg'',
           attachments = [\<lparr>filename = ''IMG-001.jpg'', ocr_text = []\<rparr>]\<rparr>,
          \<lparr>date = ''2025-09-08'', time = ''17:59'', sender = ''Jane'',
           msg_text = ''Bye'', attachments = []\<rparr>]"
    using ex_names(2)
    by (simp add: parse_chat_def sample_txt sample_paths read_sample_def
          ex_segment_image_lines attach_message_def ex_image_lines ex_resolve_image)
qed (rule ex_feed_image_lines ex_attach_image)+

text \<open>
  Claim C9, amended.  A message that is sealed at some moment of the loop stays sealed,
  and the object is the same at the end of the loop as it was at that moment.  The loop
  over \<open>messages\<close> that follows leaves date, time, sender and text of every sealed
  message as they were; the attachments, empty until then, become those that the
  resolver finds in the text of the message.
\<close>

theorem C9_sealed_frame:
  "feed_lines init_state fh1 = Inr st1 \<and> segment (fh1 @ fh2) = Inr st \<and>
   attach_all env isfile attachments_dir (messages st) (heap st) = Inr (h, calls) \<longrightarrow>
     list_all (\<lambda>a. a \<in> set (messages st) \<and> heap st ! a = heap st1 ! a) (messages st1) \<and>
     list_all (\<lambda>a. date (h ! a) = date (heap st ! a) \<and> time (h ! a) = time (heap st ! a) \<and>
                    sender (h ! a) = sender (heap st ! a) \<and>
                    msg_text (h ! a) = msg_text (heap st ! a) \<and>
                    attachments (heap st ! a) = [] \<and>
                    resolved env isfile attachments_dir (h ! a))
       (messages st)"
proof (intro impI, elim conjE)
  assume f1: "feed_lines init_state fh1 = Inr st1"
    and seg: "segment (fh1 @ fh2) = Inr st"
    and att: "attach_all env isfile attachments_dir (messages st) (heap st) = Inr (h, calls)"
  from seg f1 obtain st2 where f2: "feed_lines st1 fh2 = Inr st2" and st: "st = append_current st2"
    by (auto simp add: segment_def feed_lines_append split: sum.splits)
  from feed_lines_invariants [OF f1 init_state_ok] have v1: "valid_refs st1"
    and h1: "fresh_heap (heap st1)"
    by simp_all
  from feed_lines_invariants [OF f2 v1 h1]
  have kept: "\<forall>a \<in> set (messages st1). heap st2 ! a = heap st1 ! a \<and> a \<in> set (messages st2)"
    by simp
  have "heap st = heap st2 \<and> set (messages st2) \<subseteq> set (messages st)"
    by (cases "current_msg st2") (auto simp add: st append_current_def)
  with kept have first: "list_all (\<lambda>a. a \<in> set (messages st) \<and> heap st ! a = heap st1 ! a) (messages st1)"
    by (auto simp add: list_all_iff)
  from segment_invariants [OF seg] have refs: "list_all (\<lambda>a. a < length (heap st)) (messages st)"
    and fresh: "fresh_heap (heap st)"
    by simp_all
  note frame = attach_all_frame [OF att fresh_heap_unresolved [OF fresh]]
  have "date (h ! a) = date (heap st ! a) \<and> time (h ! a) = time (heap st ! a) \<and>
        sender (h ! a) = sender (heap st ! a) \<and> msg_text (h ! a) = msg_text (heap st ! a) \<and>
        attachments (heap st ! a) = [] \<and> resolved env isfile attachments_dir (h ! a)"
    if "a \<in> set (messages st)" for a
  proof -
    from that refs have a: "a < length (heap st)"
      by (simp add: list_all_iff)
    with fresh have "attachments (heap st ! a) = []"
      by (simp add: fresh_heap_def list_all_length)
    with frame a that show ?thesis
      by simp
  qed
  then have "list_all (\<lambda>a. date (h ! a) = date (heap st ! a) \<and> time (h ! a) = time (heap st ! a) \<and>
                    sender (h ! a) = sender (heap st ! a) \<and>
                    msg_text (h ! a) = msg_text (heap st ! a) \<and>
                    attachments (heap st ! a) = [] \<and>
                    resolved env isfile attachments_dir (h ! a))
       (messages st)"
    by (simp add: list_all_iff)
  with first show "list_all (\<lambda>a. a \<in> set (messages st) \<and> heap st ! a = heap st1 ! a) (messages st1) \<and>
     list_all (\<lambda>a. date (h ! a) = date (heap st ! a) \<and> time (h ! a) = time (heap st ! a) \<and>
                    sender (h ! a) = sender (heap st ! a) \<and>
                    msg_text (h ! a) = msg_text (heap st ! a) \<and>
                    attachments (heap st ! a) = [] \<and>
                    resolved env isfile attachments_dir (h ! a))
       (messages st)"
    ..
qed

text \<open>C9 (amended) at the chat of two lines whose first message names an image.\<close>

theorem C9_sealed_frame_witness:
  "\<exists>st1 st h calls.
     feed_lines init_state
       [''9/8/25, 5:58 PM - John: IMG-001.jpg'', ''9/8/25, 5:59 PM - Jane: Bye''] = Inr st1 \<and>
     segment ([''9/8/25, 5:58 PM - John: IMG-001.jpg'', ''9/8/25, 5:59 PM - Jane: Bye''] @ []) = Inr st \<and>
     attach_all (sample_env False (Inl ()) (Inl ()) (Inl ())) sample_isfile ''/tmp/x''
       (messages st) (heap st) = Inr (h, calls) \<and>
     messages st1 = [0] \<and> messages st = [0, 1] \<and>
     list_all (\<lambda>a. a \<in> set (messages st) \<and> heap st ! a = heap st1 ! a) (messages st1) \<and>
     list_all (\<lambda>a. date (h ! a) = date (heap st ! a) \<and> time (h ! a) = time (heap st ! a) \<and>
                    sender (h ! a) = sender (heap st ! a) \<and>
                    msg_text (h ! a) = msg_text (heap st ! a) \<and>
                    attachments (heap st ! a) = [] \<and>
                    resolved (sample_env False (Inl ()) (Inl ()) (Inl ())) sample_isfile ''/tmp/x'' (h ! a))
       (messages st)"
proof -
  let ?env = "sample_env False (Inl ()) (Inl ()) (Inl ())"
  let ?fh = "[''9/8/25, 5:58 PM - John: IMG-001.jpg'', ''9/8/25, 5:59 PM - Jane: Bye'']"
  let ?m1 = "\<lparr>date = ''2025-09-08'', time = ''17:58'', sender = ''John'',
              msg_text = ''IMG-001.jpg'', attachments = []\<rparr>"
  let ?m2 = "\<lparr>date = ''2025-09-08'', time = ''17:59'', sender = ''Jane'',
              msg_text = ''Bye'', attachments = []\<rparr>"
  let ?st1 = "\<lparr>heap = [?m1, ?m2], messages = [0], current_msg = Some 1\<rparr>"
  let ?st = "\<lparr>heap = [?m1, ?m2], messages = [0, 1], current_msg = Some 1\<rparr>"
  let ?h = "[?m1\<lparr>attachments := [\<lparr>filename = ''IMG-001.jpg'', ocr_text = []\<rparr>]\<rparr>, ?m2]"
  let ?calls = "[''/tmp/x/IMG-001.jpg'']"
  have f: "feed_lines init_state ?fh = Inr ?st1"
    by (rule ex_feed_image_lines)
  have s: "segment (?fh @ []) = Inr ?st"
    by (simp only: append_Nil2 ex_segment_image_lines)
  have a: "attach_all ?env sample_isfile ''/tmp/x'' (messages ?st) (heap ?st) = Inr (?h, ?calls)"
    using ex_attach_image by simp
  note c = mp [OF C9_sealed_frame [of ?fh ?st1 "[]" ?st ?env sample_isfile "''/tmp/x''" ?h ?calls]
      conjI [OF f conjI [OF s a]]]
  have m: "messages ?st1 = [0]" "messages ?st = [0, 1]"
    by simp_all
  from f s a m c show ?thesis
    by (intro exI [of _ ?st1] exI [of _ ?st] exI [of _ ?h] exI [of _ ?calls] conjI)
       (elim conjE, assumption)+
qed

end
